theory Spec2Isabelle
  imports Main
begin

section \<open>The forum's data, as the handlers of post_views.py see it\<close>

text \<open>
  The handlers of \<^verbatim>\<open>biostar3/forum/post_views.py\<close> read and write rows of the
  object-relational layer. A table is the list of its rows, a row is a record of the
  columns the handlers touch, and the database is the record of its tables. Primary and
  foreign keys are integers; the type codes of posts and votes are integers too, their
  values (\<^verbatim>\<open>Post.ANSWER\<close>, \<^verbatim>\<open>Post.COMMENT\<close>, \<^verbatim>\<open>Vote.UP\<close>, \<^verbatim>\<open>Vote.BOOKMARK\<close>)
  being constants of the models module, which every handler receives in its environment.
\<close>

record user =
  user_id :: int
  user_name :: string
  is_authenticated :: bool

record usergroup =
  group_id :: int
  group_public :: bool

record tag =
  tag_name :: string

text \<open>
  \<^verbatim>\<open>comment.parent.id\<close> is read from the column \<open>parent_id\<close>; \<^verbatim>\<open>post.is_toplevel\<close>
  and the tag names of a post are attributes the models module computes, kept as fields.
\<close>

record post =
  post_id :: int
  post_type :: int
  parent_id :: int
  author_id :: int
  title :: string
  content :: string
  view_count :: int
  is_toplevel :: bool
  tag_names :: "string list"

record vote =
  vote_post_id :: int
  vote_author_id :: int
  vote_type :: int

record postview =
  pv_ip :: string
  pv_post_id :: int
  pv_date :: int

text \<open>
  What the decorator of \<^verbatim>\<open>post_view\<close> adds to each post of a thread, and what the
  handler adds to the root post on top of that.
\<close>

record dpost = post +
  editable :: bool
  has_vote :: bool
  has_bookmark :: bool

record rpost = dpost +
  upvotes :: "int set"
  bookmarks :: "int set"
  answers :: "dpost list"
  comments :: "(int \<times> dpost list) list"

datatype exn = KeyError int | IndexError | OrmError string

text \<open>
  The state a handler runs in: the tables, the messages queued for the next page
  (\<^verbatim>\<open>messages.info\<close>) and what was written to the logger \<^verbatim>\<open>biostar\<close>.
\<close>

record site =
  posts :: "post list"
  votes :: "vote list"
  postviews :: "postview list"
  tags :: "tag list"
  users :: "user list"
  groups :: "usergroup list"
  flash :: "string list"
  errlog :: "exn list"

record request =
  GET :: "string \<rightharpoonup> string"
  req_user :: user
  req_group :: usergroup
  META :: "string \<rightharpoonup> string"

record 'a page =
  object_list :: "'a list"
  page_number :: nat

datatype ctxval =
    Str string
  | PostList "post list"
  | TagList "tag list"
  | VoteList "vote list"
  | GroupList "usergroup list"
  | PostPage "post page"
  | TagPage "tag page"
  | Thread rpost

datatype response =
    Render string "(string \<times> ctxval) list"
  | Redirect string

subsection \<open>The collaborators\<close>

text \<open>
  The modules \<^verbatim>\<open>query\<close>, \<^verbatim>\<open>search\<close>, \<^verbatim>\<open>auth\<close>, \<^verbatim>\<open>models\<close> and the settings are not part
  of post_views.py. Each function of theirs that a handler calls is a field of the
  environment, under its own name; the functions that query the database take the state.
  The three database calls inside the \<^verbatim>\<open>try\<close> of \<^verbatim>\<open>update_post_views\<close> may raise:
  \<open>orm_error\<close> says, for each such call, whether the database raises and what.
  \<open>random1\<close>, \<open>random2\<close> are the two draws of \<^verbatim>\<open>random.choice\<close>, \<open>faker_bs\<close> the text
  of \<^verbatim>\<open>faker\<close>, and \<open>new_post\<close> a row with the defaults of the Post model and the key
  the database assigns.
\<close>

datatype orm_call =
    PostView_filter string int int
  | PostView_create string int int
  | Post_update_view_count int

record env =
  get_toplevel_posts :: "site \<Rightarrow> user \<Rightarrow> usergroup \<Rightarrow> post list"
  get_all_posts :: "site \<Rightarrow> user \<Rightarrow> usergroup \<Rightarrow> post list"
  get_posts_by_vote :: "site \<Rightarrow> user \<Rightarrow> usergroup \<Rightarrow> int list \<Rightarrow> post list"
  get_my_bookmarks :: "site \<Rightarrow> user \<Rightarrow> usergroup \<Rightarrow> post list"
  recent_votes :: "site \<Rightarrow> vote list"
  get_thread :: "site \<Rightarrow> post \<Rightarrow> user \<Rightarrow> post list"
  TagPaginator :: "request \<Rightarrow> tag list \<Rightarrow> nat \<Rightarrow> tag page"
  PostPaginator :: "request \<Rightarrow> post list \<Rightarrow> nat \<Rightarrow> bool \<Rightarrow> post page"
  search_plain :: "site \<Rightarrow> string \<Rightarrow> post list"
  remote_ip :: "request \<Rightarrow> string"
  ago :: "int \<Rightarrow> int"
  now :: int
  thread_write_access :: "user \<Rightarrow> post \<Rightarrow> user \<Rightarrow> post \<Rightarrow> bool"
  reverse :: "string \<Rightarrow> string"
  get_absolute_url :: "post \<Rightarrow> string"
  name_icontains :: "string \<Rightarrow> string \<Rightarrow> bool"
  order_by_name :: "tag list \<Rightarrow> tag list"
  orm_error :: "orm_call \<Rightarrow> exn option"
  random1 :: nat
  random2 :: nat
  faker_bs :: string
  new_post :: post
  POSTS_PER_PAGE :: nat
  POST_VIEW_INTERVAL :: int
  Post_ANSWER :: int
  Post_COMMENT :: int
  Vote_UP :: int
  Vote_BOOKMARK :: int

section \<open>Python and framework primitives\<close>

text \<open>\<^verbatim>\<open>s.split(sep)\<close> for a separator of one character: never an empty list.\<close>

fun str_split :: "char \<Rightarrow> string \<Rightarrow> string list" where
  "str_split sep [] = [[]]"
| "str_split sep (ch # s) =
     (if ch = sep then [] # str_split sep s
      else (case str_split sep s of
              [] \<Rightarrow> [[ch]]
            | w # ws \<Rightarrow> (ch # w) # ws))"

text \<open>\<^verbatim>\<open>d.get(key, default)\<close> and \<^verbatim>\<open>d[key]\<close>, which raises KeyError.\<close>

definition dict_get :: "('k \<rightharpoonup> 'v) \<Rightarrow> 'k \<Rightarrow> 'v \<Rightarrow> 'v" where
  "dict_get d k dflt = (case d k of None \<Rightarrow> dflt | Some v \<Rightarrow> v)"

definition getitem :: "(int \<rightharpoonup> 'v) \<Rightarrow> int \<Rightarrow> exn + 'v" where
  "getitem d k = (case d k of None \<Rightarrow> Inl (KeyError k) | Some v \<Rightarrow> Inr v)"

text \<open>\<^verbatim>\<open>random.choice(seq)\<close> with the draw \<open>r\<close>: IndexError on an empty sequence.\<close>

definition choice :: "nat \<Rightarrow> 'a list \<Rightarrow> exn + 'a" where
  "choice r seq = (if seq = [] then Inl IndexError else Inr (seq ! (r mod length seq)))"

text \<open>\<^verbatim>\<open>messages.info(request, text)\<close> queues a message.\<close>

definition messages_info :: "site \<Rightarrow> string \<Rightarrow> site" where
  "messages_info s text = s\<lparr>flash := flash s @ [text]\<rparr>"

text \<open>
  \<^verbatim>\<open>posts.filter(tags__name__in=names)\<close>: the join of the posts with their tags, one
  row for each tag of a post whose name is one of \<open>names\<close>, in the order of the posts.
\<close>

definition filter_tags_name_in :: "string list \<Rightarrow> post list \<Rightarrow> post list" where
  "filter_tags_name_in names ps =
     concat (map (\<lambda>p. map (\<lambda>t. p) (filter (\<lambda>t. t \<in> set names) (tag_names p))) ps)"

text \<open>\<^verbatim>\<open>d.setdefault(key, []).append(x)\<close> on an OrderedDict: keys in order of first use.\<close>

fun setdefault_append :: "int \<Rightarrow> 'a \<Rightarrow> (int \<times> 'a list) list \<Rightarrow> (int \<times> 'a list) list" where
  "setdefault_append k x [] = [(k, [x])]"
| "setdefault_append k x ((k', xs) # d) =
     (if k' = k then (k', xs @ [x]) # d else (k', xs) # setdefault_append k x d)"

section \<open>The list handlers\<close>

definition tag_list :: "env \<Rightarrow> site \<Rightarrow> request \<Rightarrow> response \<times> site" where
  "tag_list c s request =
     (let q = dict_get (GET request) ''q'' '''';
          matching = (if q \<noteq> '''' then filter (\<lambda>t. name_icontains c q (tag_name t)) (tags s)
                      else tags s);
          ordered = order_by_name c matching;
          page = TagPaginator c request ordered 100
      in (Render ''tag_list.html''
            [(''page'', TagPage page), (''tags'', TagList (object_list page)),
             (''html_title'', Str ''Tags''), (''q'', Str q)], s))"

definition post_list :: "env \<Rightarrow> site \<Rightarrow> request \<Rightarrow> post list option \<Rightarrow> response \<times> site" where
  "post_list c s request posts_arg =
     (let ps = (case posts_arg of
                  None \<Rightarrow> get_toplevel_posts c s (req_user request) (req_group request)
                | Some ps \<Rightarrow> ps);
          page = PostPaginator c request ps (POSTS_PER_PAGE c) False
      in (Render ''post_list.html''
            [(''page'', PostPage page), (''posts'', PostList (object_list page)),
             (''recent_votes'', VoteList (recent_votes c s)),
             (''html_title'', Str ''Post List'')], s))"

text \<open>Lines 53 to 55 of \<^verbatim>\<open>tag_filter\<close>: the posts it hands to \<^verbatim>\<open>post_list\<close>.\<close>

definition tag_filter_posts :: "env \<Rightarrow> site \<Rightarrow> request \<Rightarrow> string \<Rightarrow> post list" where
  "tag_filter_posts c s request name =
     (let ps = get_toplevel_posts c s (req_user request) (req_group request);
          names = str_split CHR ''+'' name
      in filter_tags_name_in names ps)"

definition tag_filter :: "env \<Rightarrow> site \<Rightarrow> request \<Rightarrow> string \<Rightarrow> response \<times> site" where
  "tag_filter c s request name =
     (let ps = tag_filter_posts c s request name;
          s1 = messages_info s (''Filtering for tags: '' @ name)
      in post_list c s1 request (Some ps))"

definition posts_by_user :: "env \<Rightarrow> site \<Rightarrow> request \<Rightarrow> int \<Rightarrow> user \<Rightarrow> response \<times> site" where
  "posts_by_user c s request pk usr =
     (let ps = get_all_posts c s usr (req_group request);
          s1 = messages_info s (''Posts by: '' @ user_name usr)
      in post_list c s1 request (Some ps))"

definition upvoted_posts :: "env \<Rightarrow> site \<Rightarrow> request \<Rightarrow> int \<Rightarrow> user \<Rightarrow> response \<times> site" where
  "upvoted_posts c s request pk usr =
     (let ps = get_posts_by_vote c s usr (req_group request) [Vote_BOOKMARK c, Vote_UP c];
          s1 = messages_info s (''Upvoted posts by: '' @ user_name usr)
      in post_list c s1 request (Some ps))"

definition my_bookmarks :: "env \<Rightarrow> site \<Rightarrow> request \<Rightarrow> response \<times> site" where
  "my_bookmarks c s request =
     (let usr = req_user request;
          ps = get_my_bookmarks c s usr (req_group request);
          s1 = messages_info s (''Bookmarks for: '' @ user_name usr)
      in post_list c s1 request (Some ps))"

definition group_list :: "env \<Rightarrow> site \<Rightarrow> request \<Rightarrow> response \<times> site" where
  "group_list c s request =
     (let public_groups = filter group_public (groups s)
      in (Render ''post_list.html'' [(''public_groups'', GroupList public_groups)], s))"

definition search_results :: "env \<Rightarrow> site \<Rightarrow> request \<Rightarrow> response \<times> site" where
  "search_results c s request =
     (let q = dict_get (GET request) ''q'' ''''
      in if q = '''' then (Redirect (reverse c ''home''), s)
         else
           let ps = search_plain c s q;
               page = PostPaginator c request ps (POSTS_PER_PAGE c) False
           in (Render ''post_search_results.html''
                 [(''page'', PostPage page), (''posts'', PostList (object_list page)),
                  (''recent_votes'', VoteList (recent_votes c s)),
                  (''html_title'', Str ''Post List''), (''q'', Str q)], s))"

section \<open>Recording a page view\<close>

text \<open>
  The body of the \<^verbatim>\<open>try\<close> (lines 146 to 148): the exception it ends with, if any,
  and the state it leaves. A row written before the exception stays written.
\<close>

definition update_post_views_try ::
  "env \<Rightarrow> site \<Rightarrow> string \<Rightarrow> int \<Rightarrow> post \<Rightarrow> exn option \<times> site" where
  "update_post_views_try c s ip since pst =
     (case orm_error c (PostView_filter ip (post_id pst) since) of
        Some exc \<Rightarrow> (Some exc, s)
      | None \<Rightarrow>
          if filter (\<lambda>pv. pv_ip pv = ip \<and> pv_post_id pv = post_id pst \<and> since < pv_date pv)
               (postviews s) = []
          then
            (case orm_error c (PostView_create ip (post_id pst) (now c)) of
               Some exc \<Rightarrow> (Some exc, s)
             | None \<Rightarrow>
                 let s1 = s\<lparr>postviews := postviews s @
                            [\<lparr>pv_ip = ip, pv_post_id = post_id pst, pv_date = now c\<rparr>]\<rparr>
                 in (case orm_error c (Post_update_view_count (post_id pst)) of
                       Some exc \<Rightarrow> (Some exc, s1)
                     | None \<Rightarrow>
                         (None, s1\<lparr>posts :=
                            map (\<lambda>p. if post_id p = post_id pst
                                      then p\<lparr>view_count := view_count p + 1\<rparr> else p)
                              (posts s1)\<rparr>)))
          else (None, s))"

text \<open>
  \<^verbatim>\<open>update_post_views\<close>: \<open>Inr ()\<close> is the normal return, \<open>Inl\<close> an exception that
  reaches the caller.
\<close>

definition update_post_views ::
  "env \<Rightarrow> site \<Rightarrow> request \<Rightarrow> post \<Rightarrow> int \<Rightarrow> (exn + unit) \<times> site" where
  "update_post_views c s request pst minutes =
     (let ip = remote_ip c request;
          since = ago c minutes
      in case update_post_views_try c s ip since pst of
           (None, s1) \<Rightarrow> (Inr (), s1)
         | (Some exc, s1) \<Rightarrow> (Inr (), s1\<lparr>errlog := errlog s1 @ [exc]\<rparr>))"

section \<open>The thread page\<close>

text \<open>The loop of lines 179 and 180 over the rows \<open>(post_id, type)\<close>.\<close>

fun store_votes :: "(int \<times> int) list \<Rightarrow> (int \<rightharpoonup> int set) \<Rightarrow> (int \<rightharpoonup> int set)" where
  "store_votes [] store = store"
| "store_votes ((pid, vtype) # rows) store =
     store_votes rows
       (store(vtype \<mapsto> insert pid (case store vtype of None \<Rightarrow> {} | Some ids \<Rightarrow> ids)))"

text \<open>Lines 173 to 180: the votes of the user on the posts of the thread, by type.\<close>

definition vote_store :: "env \<Rightarrow> site \<Rightarrow> post list \<Rightarrow> user \<Rightarrow> (int \<rightharpoonup> int set)" where
  "vote_store c s thread usr =
     (let store = Map.empty(Vote_UP c \<mapsto> {}, Vote_BOOKMARK c \<mapsto> {})
      in if is_authenticated usr then
           let pids = map post_id thread;
               rows = map (\<lambda>v. (vote_post_id v, vote_type v))
                        (filter (\<lambda>v. vote_post_id v \<in> set pids \<and> vote_author_id v = user_id usr)
                           (votes s))
           in store_votes rows store
         else store)"

definition decorator ::
  "(user \<Rightarrow> post \<Rightarrow> bool) \<Rightarrow> user \<Rightarrow> int set \<Rightarrow> int set \<Rightarrow> post \<Rightarrow> dpost" where
  "decorator write_access_check usr ups bms p =
     post.extend p
       (dpost.fields (write_access_check usr p) (post_id p \<in> ups) (post_id p \<in> bms))"

text \<open>The loop of lines 211 and 212.\<close>

fun collect_comments :: "dpost list \<Rightarrow> (int \<times> dpost list) list \<Rightarrow> (int \<times> dpost list) list" where
  "collect_comments [] d = d"
| "collect_comments (comment # comment_list) d =
     collect_comments comment_list (setdefault_append (parent_id comment) comment d)"

text \<open>Lines 183 to 212: the decorated thread and the root post with its attributes.\<close>

definition decorate_thread ::
  "env \<Rightarrow> post \<Rightarrow> user \<Rightarrow> int set \<Rightarrow> int set \<Rightarrow> post list \<Rightarrow> dpost list \<times> rpost" where
  "decorate_thread c pst usr ups bms thread =
     (let write_access_check = thread_write_access c usr pst;
          thread1 = map (decorator write_access_check usr ups bms) thread;
          pst1 = decorator write_access_check usr ups bms pst;
          answer_list = filter (\<lambda>p. post_type p = Post_ANSWER c) thread1;
          comment_list = filter (\<lambda>pc. post_type pc = Post_COMMENT c) thread1;
          comment_dict = collect_comments comment_list []
      in (thread1, dpost.extend pst1 (rpost.fields ups bms answer_list comment_dict)))"

text \<open>
  Lines 214 to 222: for an authenticated user, a comment by a random user under a random
  post of the page is created.
\<close>

definition add_test_comment ::
  "env \<Rightarrow> site \<Rightarrow> int list \<Rightarrow> exn option \<times> site" where
  "add_test_comment c s page_ids =
     (case choice (random1 c) (users s) of
        Inl exc \<Rightarrow> (Some exc, s)
      | Inr u \<Rightarrow>
          (case choice (random2 c) page_ids of
             Inl exc \<Rightarrow> (Some exc, s)
           | Inr parent \<Rightarrow>
               let comment = (new_post c)\<lparr>post_type := Post_COMMENT c, parent_id := parent,
                                content := faker_bs c, author_id := user_id u\<rparr>
               in (None, s\<lparr>posts := posts s @ [comment]\<rparr>)))"

text \<open>Lines 169 to 228: what \<^verbatim>\<open>post_view\<close> does once the view is recorded.\<close>

definition post_view_thread ::
  "env \<Rightarrow> site \<Rightarrow> post \<Rightarrow> user \<Rightarrow> (exn + response) \<times> site" where
  "post_view_thread c s1 pst usr =
     (let thread = get_thread c s1 pst usr;
          store = vote_store c s1 thread usr
      in case getitem store (Vote_UP c) of
           Inl exc \<Rightarrow> (Inl exc, s1)
         | Inr ups \<Rightarrow>
             (case getitem store (Vote_BOOKMARK c) of
                Inl exc \<Rightarrow> (Inl exc, s1)
              | Inr bms \<Rightarrow>
                  let (thread1, root) = decorate_thread c pst usr ups bms thread;
                      page = Render ''post_detail.html''
                               [(''post'', Thread root), (''html_title'', Str (title root))]
                  in if is_authenticated usr then
                       (case add_test_comment c s1 (map post_id thread1 @ [post_id root]) of
                          (Some exc, s2) \<Rightarrow> (Inl exc, s2)
                        | (None, s2) \<Rightarrow> (Inr page, s2))
                     else (Inr page, s1)))"

definition post_view ::
  "env \<Rightarrow> site \<Rightarrow> request \<Rightarrow> int \<Rightarrow> post \<Rightarrow> user \<Rightarrow> (exn + response) \<times> site" where
  "post_view c s request pk pst usr =
     (if \<not> is_toplevel pst then (Inr (Redirect (get_absolute_url c pst)), s)
      else
        case update_post_views c s request pst (POST_VIEW_INTERVAL c) of
          (Inl exc, s1) \<Rightarrow> (Inl exc, s1)
        | (Inr u, s1) \<Rightarrow> post_view_thread c s1 pst usr)"

section \<open>An example site\<close>

text \<open>
  A small forum on which the handlers are run: a question with an answer and three
  comments, a second question, two users and an anonymous visitor. The type codes are
  those of the forum (question 0, answer 1, comment 6; upvote 0, bookmark 2), the
  paginator shows the first page, the thread of a post is the post with every reply of
  the site, and the clock stands at 1000.
\<close>

definition ada :: user where
  "ada = \<lparr>user_id = 7, user_name = ''ada'', is_authenticated = True\<rparr>"

definition bob :: user where
  "bob = \<lparr>user_id = 8, user_name = ''bob'', is_authenticated = True\<rparr>"

definition anonymous :: user where
  "anonymous = \<lparr>user_id = 0, user_name = '''', is_authenticated = False\<rparr>"

definition biostar_group :: usergroup where
  "biostar_group = \<lparr>group_id = 1, group_public = True\<rparr>"

definition question1 :: post where
  "question1 = \<lparr>post_id = 1, post_type = 0, parent_id = 1, author_id = 8,
     title = ''Aligning reads'', content = ''How?'', view_count = 5, is_toplevel = True,
     tag_names = [''rna'']\<rparr>"

definition answer2 :: post where
  "answer2 = \<lparr>post_id = 2, post_type = 1, parent_id = 1, author_id = 7,
     title = '''', content = ''Use an aligner'', view_count = 0, is_toplevel = False,
     tag_names = []\<rparr>"

definition comment3 :: post where
  "comment3 = \<lparr>post_id = 3, post_type = 6, parent_id = 2, author_id = 8,
     title = '''', content = ''Which one?'', view_count = 0, is_toplevel = False,
     tag_names = []\<rparr>"

definition comment4 :: post where
  "comment4 = \<lparr>post_id = 4, post_type = 6, parent_id = 1, author_id = 7,
     title = '''', content = ''Which reads?'', view_count = 0, is_toplevel = False,
     tag_names = []\<rparr>"

definition comment5 :: post where
  "comment5 = \<lparr>post_id = 5, post_type = 6, parent_id = 2, author_id = 7,
     title = '''', content = ''Any'', view_count = 0, is_toplevel = False,
     tag_names = []\<rparr>"

definition question6 :: post where
  "question6 = \<lparr>post_id = 6, post_type = 0, parent_id = 6, author_id = 7,
     title = ''Workflows'', content = ''Where?'', view_count = 2, is_toplevel = True,
     tag_names = [''galaxy'', ''workflows'']\<rparr>"

definition forum :: site where
  "forum = \<lparr>posts = [question1, answer2, comment3, comment4, comment5, question6],
     votes = [\<lparr>vote_post_id = 1, vote_author_id = 7, vote_type = 0\<rparr>,
              \<lparr>vote_post_id = 2, vote_author_id = 7, vote_type = 2\<rparr>,
              \<lparr>vote_post_id = 3, vote_author_id = 8, vote_type = 0\<rparr>,
              \<lparr>vote_post_id = 6, vote_author_id = 7, vote_type = 0\<rparr>],
     postviews = [\<lparr>pv_ip = ''10.0.0.9'', pv_post_id = 1, pv_date = 990\<rparr>],
     tags = [\<lparr>tag_name = ''rna''\<rparr>, \<lparr>tag_name = ''galaxy''\<rparr>],
     users = [ada, bob],
     groups = [biostar_group],
     flash = [],
     errlog = []\<rparr>"

definition visit :: "user \<Rightarrow> string \<Rightarrow> request" where
  "visit usr ip = \<lparr>GET = Map.empty, req_user = usr, req_group = biostar_group,
     META = [''REMOTE_ADDR'' \<mapsto> ip]\<rparr>"

definition search_for :: "string \<Rightarrow> request" where
  "search_for q = \<lparr>GET = [''q'' \<mapsto> q], req_user = anonymous, req_group = biostar_group,
     META = [''REMOTE_ADDR'' \<mapsto> ''10.0.0.1'']\<rparr>"

definition blank_post :: post where
  "blank_post = \<lparr>post_id = 9, post_type = 0, parent_id = 0, author_id = 0,
     title = '''', content = '''', view_count = 0, is_toplevel = False, tag_names = []\<rparr>"

definition biostar :: env where
  "biostar = \<lparr>
     get_toplevel_posts = (\<lambda>s u g. filter is_toplevel (posts s)),
     get_all_posts = (\<lambda>s u g. filter (\<lambda>p. author_id p = user_id u) (posts s)),
     get_posts_by_vote = (\<lambda>s u g types.
        filter (\<lambda>p. list_ex (\<lambda>v. vote_post_id v = post_id p \<and> vote_author_id v = user_id u
                                  \<and> vote_type v \<in> set types) (votes s)) (posts s)),
     get_my_bookmarks = (\<lambda>s u g.
        filter (\<lambda>p. list_ex (\<lambda>v. vote_post_id v = post_id p \<and> vote_author_id v = user_id u
                                  \<and> vote_type v = 2) (votes s)) (posts s)),
     recent_votes = (\<lambda>s. take 5 (votes s)),
     get_thread = (\<lambda>s root u.
        filter (\<lambda>p. post_id p = post_id root \<or> \<not> is_toplevel p) (posts s)),
     TagPaginator = (\<lambda>r ts n. \<lparr>object_list = take n ts, page_number = 1\<rparr>),
     PostPaginator = (\<lambda>r ps n orphans. \<lparr>object_list = take n ps, page_number = 1\<rparr>),
     search_plain = (\<lambda>s q. filter (\<lambda>p. q \<in> set (tag_names p)) (posts s)),
     remote_ip = (\<lambda>r. dict_get (META r) ''REMOTE_ADDR'' ''0.0.0.0''),
     ago = (\<lambda>minutes. 1000 - 60 * minutes),
     now = 1000,
     thread_write_access = (\<lambda>u root u' p. author_id p = user_id u'),
     reverse = (\<lambda>name. if name = ''home'' then ''/'' else ''/'' @ name @ ''/''),
     get_absolute_url = (\<lambda>p. ''/p/1/#4''),
     name_icontains = (\<lambda>q name. q = name),
     order_by_name = (\<lambda>ts. ts),
     orm_error = (\<lambda>call. case call of
        PostView_filter ip pid since \<Rightarrow>
          if ip = ''not-an-address'' then Some (OrmError ''invalid input for type inet'')
          else None
      | PostView_create ip pid date \<Rightarrow> None
      | Post_update_view_count pid \<Rightarrow> None),
     random1 = 1,
     random2 = 4,
     faker_bs = ''synergize scalable paradigms'',
     new_post = blank_post,
     POSTS_PER_PAGE = 25,
     POST_VIEW_INTERVAL = 5,
     Post_ANSWER = 1,
     Post_COMMENT = 6,
     Vote_UP = 0,
     Vote_BOOKMARK = 2\<rparr>"

section \<open>Recording a page view: properties\<close>

lemmas example_defs = ada_def bob_def anonymous_def biostar_group_def question1_def answer2_def
  comment3_def comment4_def comment5_def question6_def forum_def visit_def search_for_def
  blank_post_def biostar_def

lemma try_errlog: "errlog (snd (update_post_views_try c s ip since pst)) = errlog s"
  by (simp add: update_post_views_try_def Let_def split: option.splits)

lemma try_seen:
  assumes "\<exists>pv\<in>set (postviews s). pv_ip pv = ip \<and> pv_post_id pv = post_id pst \<and> since < pv_date pv"
  shows "snd (update_post_views_try c s ip since pst) = s"
proof -
  from assms have "filter (\<lambda>pv. pv_ip pv = ip \<and> pv_post_id pv = post_id pst \<and> since < pv_date pv)
      (postviews s) \<noteq> []"
    by (auto simp: filter_empty_conv)
  then show ?thesis
    by (simp add: update_post_views_try_def split: option.splits)
qed

lemma try_unseen:
  assumes "\<not> (\<exists>pv\<in>set (postviews s). pv_ip pv = ip \<and> pv_post_id pv = post_id pst \<and> since < pv_date pv)"
    and "fst (update_post_views_try c s ip since pst) = None"
  shows "snd (update_post_views_try c s ip since pst) =
    s\<lparr>postviews := postviews s @ [\<lparr>pv_ip = ip, pv_post_id = post_id pst, pv_date = now c\<rparr>],
       posts := map (\<lambda>p. if post_id p = post_id pst then p\<lparr>view_count := view_count p + 1\<rparr> else p)
                 (posts s)\<rparr>"
proof -
  from assms(1) have "filter (\<lambda>pv. pv_ip pv = ip \<and> pv_post_id pv = post_id pst \<and> since < pv_date pv)
      (postviews s) = []"
    by (auto simp: filter_empty_conv)
  with assms(2) show ?thesis
    by (simp add: update_post_views_try_def Let_def split: option.splits)
qed

lemma upv_snd:
  "snd (update_post_views c s request pst minutes) =
     (case fst (update_post_views_try c s (remote_ip c request) (ago c minutes) pst) of
        None \<Rightarrow> snd (update_post_views_try c s (remote_ip c request) (ago c minutes) pst)
      | Some exc \<Rightarrow> (snd (update_post_views_try c s (remote_ip c request) (ago c minutes) pst))
          \<lparr>errlog := errlog s @ [exc]\<rparr>)"
proof -
  obtain e s1 where run: "update_post_views_try c s (remote_ip c request) (ago c minutes) pst = (e, s1)"
    by (cases "update_post_views_try c s (remote_ip c request) (ago c minutes) pst")
  with try_errlog [of c s "remote_ip c request" "ago c minutes" pst] have "errlog s1 = errlog s"
    by simp
  with run show ?thesis
    by (simp add: update_post_views_def Let_def split: option.splits)
qed

lemma upv_seen_posts:
  assumes "\<exists>pv\<in>set (postviews s). pv_ip pv = remote_ip c request \<and> pv_post_id pv = post_id pst
             \<and> ago c minutes < pv_date pv"
  shows "posts (snd (update_post_views c s request pst minutes)) = posts s"
    and "postviews (snd (update_post_views c s request pst minutes)) = postviews s"
  using try_seen [OF assms, of c] by (simp_all add: upv_snd split: option.splits)

lemma map_bump_neq:
  assumes "k \<in> post_id ` set ps"
  shows "map (\<lambda>p. if post_id p = k then p\<lparr>view_count := view_count p + 1\<rparr> else p) ps \<noteq> ps"
proof
  assume eq: "map (\<lambda>p. if post_id p = k then p\<lparr>view_count := view_count p + 1\<rparr> else p) ps = ps"
  from assms obtain p where p: "p \<in> set ps" "post_id p = k" by auto
  from eq have "\<forall>x\<in>set ps. (if post_id x = k then x\<lparr>view_count := view_count x + 1\<rparr> else x) = x"
    by (simp add: map_idI map_eq_conv [where g = "\<lambda>x. x", simplified])
  with p have "p\<lparr>view_count := view_count p + 1\<rparr> = p" by auto
  then have "view_count (p\<lparr>view_count := view_count p + 1\<rparr>) = view_count p" by simp
  then show False by simp
qed

lemma upv_unseen:
  assumes unseen: "\<not> (\<exists>pv\<in>set (postviews s). pv_ip pv = remote_ip c request
             \<and> pv_post_id pv = post_id pst \<and> ago c minutes < pv_date pv)"
    and quiet: "errlog (snd (update_post_views c s request pst minutes)) = errlog s"
  shows "snd (update_post_views c s request pst minutes) =
    s\<lparr>postviews := postviews s @
         [\<lparr>pv_ip = remote_ip c request, pv_post_id = post_id pst, pv_date = now c\<rparr>],
       posts := map (\<lambda>p. if post_id p = post_id pst then p\<lparr>view_count := view_count p + 1\<rparr> else p)
                 (posts s)\<rparr>"
proof (cases "fst (update_post_views_try c s (remote_ip c request) (ago c minutes) pst)")
  case None
  with try_unseen [OF unseen None, of ] show ?thesis by (simp add: upv_snd)
next
  case (Some exc)
  with quiet show ?thesis by (simp add: upv_snd)
qed

text \<open>
  C9. In a call of \<^verbatim>\<open>update_post_views\<close> in which nothing is raised (the log is as it
  was), for a post that is a row of the posts table: the view count of the post changes
  exactly when a PostView row is added; neither happens when a row for the same address
  and post dated after \<^verbatim>\<open>auth.ago(minutes)\<close> exists; otherwise one row dated
  \<^verbatim>\<open>auth.now()\<close> is added and the view count of the post goes up by one, and any later
  call from the same address for the same post whose threshold lies before that date
  leaves the view counts alone.
\<close>

theorem update_post_views_once_per_interval:
  assumes quiet: "errlog (snd (update_post_views c s request pst minutes)) = errlog s"
    and row: "post_id pst \<in> post_id ` set (posts s)"
  shows
   "(let s' = snd (update_post_views c s request pst minutes);
         seen = (\<exists>pv\<in>set (postviews s). pv_ip pv = remote_ip c request
                   \<and> pv_post_id pv = post_id pst \<and> ago c minutes < pv_date pv)
     in (posts s' \<noteq> posts s) = (postviews s' \<noteq> postviews s)
        \<and> (seen \<longrightarrow> posts s' = posts s \<and> postviews s' = postviews s)
        \<and> (\<not> seen \<longrightarrow>
             postviews s' = postviews s @
               [\<lparr>pv_ip = remote_ip c request, pv_post_id = post_id pst, pv_date = now c\<rparr>]
             \<and> posts s' = map (\<lambda>p. if post_id p = post_id pst
                                    then p\<lparr>view_count := view_count p + 1\<rparr> else p) (posts s)
             \<and> (\<forall>c2 request2 minutes2.
                   remote_ip c2 request2 = remote_ip c request \<and> ago c2 minutes2 < now c
                   \<longrightarrow> posts (snd (update_post_views c2 s' request2 pst minutes2)) = posts s')))"
proof (cases "\<exists>pv\<in>set (postviews s). pv_ip pv = remote_ip c request
                   \<and> pv_post_id pv = post_id pst \<and> ago c minutes < pv_date pv")
  case True
  with upv_seen_posts [OF True] show ?thesis by (simp add: Let_def)
next
  case False
  let ?v = "\<lparr>pv_ip = remote_ip c request, pv_post_id = post_id pst, pv_date = now c\<rparr>"
  let ?s' = "snd (update_post_views c s request pst minutes)"
  have s': "?s' = s\<lparr>postviews := postviews s @ [?v],
       posts := map (\<lambda>p. if post_id p = post_id pst then p\<lparr>view_count := view_count p + 1\<rparr> else p)
                 (posts s)\<rparr>"
    by (rule upv_unseen [OF False quiet])
  have views: "postviews ?s' = postviews s @ [?v]" by (simp add: s')
  have bumped: "posts ?s' = map (\<lambda>p. if post_id p = post_id pst
                                    then p\<lparr>view_count := view_count p + 1\<rparr> else p) (posts s)"
    by (simp add: s')
  have changed: "posts ?s' \<noteq> posts s"
    unfolding bumped by (rule map_bump_neq [OF row])
  have again: "posts (snd (update_post_views c2 ?s' request2 pst minutes2)) = posts ?s'"
    if "remote_ip c2 request2 = remote_ip c request \<and> ago c2 minutes2 < now c"
    for c2 request2 minutes2
  proof (rule upv_seen_posts(1))
    from that have "pv_ip ?v = remote_ip c2 request2 \<and> pv_post_id ?v = post_id pst
        \<and> ago c2 minutes2 < pv_date ?v" by simp
    moreover have "?v \<in> set (postviews ?s')" by (simp add: views)
    ultimately show "\<exists>pv\<in>set (postviews ?s'). pv_ip pv = remote_ip c2 request2
        \<and> pv_post_id pv = post_id pst \<and> ago c2 minutes2 < pv_date pv" by blast
  qed
  from False views bumped changed again show ?thesis
    unfolding Let_def by (intro conjI impI allI) simp_all
qed

theorem update_post_views_once_per_interval_witness:
  "errlog (snd (update_post_views biostar forum (visit ada ''10.0.0.1'') question1 5)) = errlog forum
   \<and> post_id question1 \<in> post_id ` set (posts forum)
   \<and> postviews (snd (update_post_views biostar forum (visit ada ''10.0.0.1'') question1 5)) =
       [\<lparr>pv_ip = ''10.0.0.9'', pv_post_id = 1, pv_date = 990\<rparr>,
        \<lparr>pv_ip = ''10.0.0.1'', pv_post_id = 1, pv_date = 1000\<rparr>]
   \<and> map view_count (posts (snd (update_post_views biostar forum (visit ada ''10.0.0.1'') question1 5)))
       = [6, 0, 0, 0, 0, 2]
   \<and> posts (snd (update_post_views biostar
         (snd (update_post_views biostar forum (visit ada ''10.0.0.1'') question1 5))
         (visit bob ''10.0.0.1'') question1 5))
       = posts (snd (update_post_views biostar forum (visit ada ''10.0.0.1'') question1 5))"
proof -
  have quiet: "errlog (snd (update_post_views biostar forum (visit ada ''10.0.0.1'') question1 5))
      = errlog forum"
    by (simp add: update_post_views_def update_post_views_try_def example_defs dict_get_def)
  have row: "post_id question1 \<in> post_id ` set (posts forum)"
    by (simp add: example_defs)
  have ip: "remote_ip biostar (visit bob ''10.0.0.1'') = remote_ip biostar (visit ada ''10.0.0.1'')"
    by (simp add: example_defs dict_get_def)
  have clock: "ago biostar 5 < now biostar" by (simp add: example_defs)
  have unseen: "\<not> (\<exists>pv\<in>set (postviews forum). pv_ip pv = remote_ip biostar (visit ada ''10.0.0.1'')
                   \<and> pv_post_id pv = post_id question1 \<and> ago biostar 5 < pv_date pv)"
    by (simp add: example_defs dict_get_def)
  from update_post_views_once_per_interval [OF quiet row] unseen ip clock
  have "postviews (snd (update_post_views biostar forum (visit ada ''10.0.0.1'') question1 5)) =
          postviews forum @ [\<lparr>pv_ip = remote_ip biostar (visit ada ''10.0.0.1''),
                              pv_post_id = post_id question1, pv_date = now biostar\<rparr>]"
    and "posts (snd (update_post_views biostar forum (visit ada ''10.0.0.1'') question1 5)) =
          map (\<lambda>p. if post_id p = post_id question1 then p\<lparr>view_count := view_count p + 1\<rparr> else p)
            (posts forum)"
    and "posts (snd (update_post_views biostar
         (snd (update_post_views biostar forum (visit ada ''10.0.0.1'') question1 5))
         (visit bob ''10.0.0.1'') question1 5))
       = posts (snd (update_post_views biostar forum (visit ada ''10.0.0.1'') question1 5))"
    unfolding Let_def by blast+
  with quiet row show ?thesis
    by (simp add: example_defs dict_get_def)
qed

section \<open>Redirects\<close>

text \<open>
  C6. \<^verbatim>\<open>post_view\<close> on a post that is not toplevel returns a redirect to the post's
  absolute URL and leaves the state as it was: no view is recorded, no view count is
  changed and no page is rendered.
\<close>

theorem post_view_reply_redirects:
  "\<not> is_toplevel pst \<Longrightarrow>
     post_view c s request pk pst usr = (Inr (Redirect (get_absolute_url c pst)), s)"
  by (simp add: post_view_def)

theorem post_view_reply_redirects_witness:
  "\<not> is_toplevel comment4
   \<and> post_view biostar forum (visit ada ''10.0.0.1'') 4 comment4 ada =
       (Inr (Redirect ''/p/1/#4''), forum)"
  using post_view_reply_redirects [of comment4 biostar forum "visit ada ''10.0.0.1''" 4 ada]
  by (simp add: example_defs)

text \<open>
  C7. \<^verbatim>\<open>search_results\<close> with \<open>q\<close> absent or empty returns a redirect to the route
  \<open>home\<close> and leaves the state as it was, whatever the search backend and the paginator
  are: neither is consulted. With a non-empty \<open>q\<close> it renders the results template on
  the page the paginator makes of \<^verbatim>\<open>search.plain(q)\<close>.
\<close>

theorem search_results_query:
  "((GET request ''q'' = None \<or> GET request ''q'' = Some '''') \<longrightarrow>
      (\<forall>f g. search_results (c\<lparr>search_plain := f, PostPaginator := g\<rparr>) s request =
         (Redirect (reverse c ''home''), s)))
   \<and> (\<forall>q. GET request ''q'' = Some q \<and> q \<noteq> '''' \<longrightarrow>
        search_results c s request =
          (Render ''post_search_results.html''
             [(''page'', PostPage (PostPaginator c request (search_plain c s q) (POSTS_PER_PAGE c) False)),
              (''posts'', PostList (object_list
                 (PostPaginator c request (search_plain c s q) (POSTS_PER_PAGE c) False))),
              (''recent_votes'', VoteList (recent_votes c s)),
              (''html_title'', Str ''Post List''), (''q'', Str q)], s))"
  by (auto simp: search_results_def dict_get_def Let_def)

theorem search_results_query_witness:
  "GET (search_for '''') ''q'' = Some ''''
   \<and> search_results biostar forum (search_for '''') = (Redirect ''/'', forum)
   \<and> GET (visit ada ''10.0.0.1'') ''q'' = None
   \<and> search_results biostar forum (visit ada ''10.0.0.1'') = (Redirect ''/'', forum)
   \<and> GET (search_for ''galaxy'') ''q'' = Some ''galaxy''
   \<and> search_results biostar forum (search_for ''galaxy'') =
       (Render ''post_search_results.html''
          [(''page'', PostPage \<lparr>object_list = [question6], page_number = 1\<rparr>),
           (''posts'', PostList [question6]),
           (''recent_votes'', VoteList (votes forum)),
           (''html_title'', Str ''Post List''), (''q'', Str ''galaxy'')], forum)"
proof -
  have same: "biostar\<lparr>search_plain := search_plain biostar, PostPaginator := PostPaginator biostar\<rparr>
      = biostar" by simp
  have e1: "GET (search_for '''') ''q'' = Some ''''" by (simp add: search_for_def)
  have e2: "GET (visit ada ''10.0.0.1'') ''q'' = None" by (simp add: visit_def)
  have e3: "GET (search_for ''galaxy'') ''q'' = Some ''galaxy''" by (simp add: search_for_def)
  from search_results_query [of "search_for ''''" biostar forum] e1
  have r1: "search_results biostar forum (search_for '''') = (Redirect (reverse biostar ''home''), forum)"
    using same by metis
  from search_results_query [of "visit ada ''10.0.0.1''" biostar forum] e2
  have r2: "search_results biostar forum (visit ada ''10.0.0.1'') =
      (Redirect (reverse biostar ''home''), forum)"
    using same by metis
  from search_results_query [of "search_for ''galaxy''" biostar forum] e3
  have r3: "search_results biostar forum (search_for ''galaxy'') =
          (Render ''post_search_results.html''
             [(''page'', PostPage (PostPaginator biostar (search_for ''galaxy'')
                 (search_plain biostar forum ''galaxy'') (POSTS_PER_PAGE biostar) False)),
              (''posts'', PostList (object_list
                 (PostPaginator biostar (search_for ''galaxy'')
                    (search_plain biostar forum ''galaxy'') (POSTS_PER_PAGE biostar) False))),
              (''recent_votes'', VoteList (recent_votes biostar forum)),
              (''html_title'', Str ''Post List''), (''q'', Str ''galaxy'')], forum)"
    by simp
  have home: "reverse biostar ''home'' = ''/''" by (simp add: biostar_def)
  have page: "PostPaginator biostar (search_for ''galaxy'')
       (search_plain biostar forum ''galaxy'') (POSTS_PER_PAGE biostar) False
       = \<lparr>object_list = [question6], page_number = 1\<rparr>"
    by (simp add: example_defs)
  have rv: "recent_votes biostar forum = votes forum" by (simp add: example_defs)
  from e1 e2 e3 r1 r2 r3 show ?thesis by (simp only: home page rv page.simps)
qed

section \<open>The thread page: properties\<close>

subsection \<open>The vote store\<close>

lemma store_votes_lookup:
  "store_votes rows store k =
     (if k \<in> dom store \<union> snd ` set rows
      then Some ((case store k of None \<Rightarrow> {} | Some ids \<Rightarrow> ids) \<union> {pid. (pid, k) \<in> set rows})
      else None)"
proof (induction rows arbitrary: store)
  case Nil
  show ?case by (auto split: option.splits)
next
  case (Cons row rows)
  obtain pid vtype where row: "row = (pid, vtype)" by (cases row)
  show ?case
    unfolding row store_votes.simps Cons.IH
    by (auto split: option.splits simp: image_iff)
qed

lemma initial_store:
  assumes "k = up \<or> k = bm"
  shows "(Map.empty(up \<mapsto> {}, bm \<mapsto> {})) k = Some ({} :: int set)"
  using assms by auto

lemma vote_rows:
  "{pid. (pid, k) \<in> set (map (\<lambda>v. (vote_post_id v, vote_type v))
        (filter (\<lambda>v. vote_post_id v \<in> set pids \<and> vote_author_id v = uid) vs))} =
   {pid. pid \<in> set pids \<and>
      (\<exists>v\<in>set vs. vote_post_id v = pid \<and> vote_author_id v = uid \<and> vote_type v = k)}"
  by (auto simp: image_iff)

lemma vote_store_lookup:
  assumes "k = Vote_UP c \<or> k = Vote_BOOKMARK c"
  shows "vote_store c s thread usr k =
     Some (if is_authenticated usr
           then {pid. pid \<in> post_id ` set thread \<and>
                   (\<exists>v\<in>set (votes s). vote_post_id v = pid \<and> vote_author_id v = user_id usr
                      \<and> vote_type v = k)}
           else {})"
proof (cases "is_authenticated usr")
  case False
  with initial_store [OF assms] show ?thesis by (simp add: vote_store_def)
next
  case True
  have init: "(Map.empty(Vote_UP c \<mapsto> {}, Vote_BOOKMARK c \<mapsto> {})) k = Some ({} :: int set)"
    by (rule initial_store [OF assms])
  then have dom: "k \<in> dom (Map.empty(Vote_UP c \<mapsto> ({} :: int set), Vote_BOOKMARK c \<mapsto> {}))"
    by (simp only: domIff) simp
  then have present: "k \<in> dom (Map.empty(Vote_UP c \<mapsto> ({} :: int set), Vote_BOOKMARK c \<mapsto> {})) \<union> R"
    for R by blast
  show ?thesis
    unfolding vote_store_def Let_def
    by (simp only: True if_True store_votes_lookup init vote_rows option.case present)
       simp
qed

lemma getitem_vote_store:
  assumes "k = Vote_UP c \<or> k = Vote_BOOKMARK c"
  shows "getitem (vote_store c s thread usr) k =
     Inr (if is_authenticated usr
          then {pid. pid \<in> post_id ` set thread \<and>
                  (\<exists>v\<in>set (votes s). vote_post_id v = pid \<and> vote_author_id v = user_id usr
                     \<and> vote_type v = k)}
          else {})"
  by (simp add: getitem_def vote_store_lookup [OF assms])

subsection \<open>The decorator\<close>

lemma decorator_fields:
  "post_id (decorator w u ups bms p) = post_id p"
  "post_type (decorator w u ups bms p) = post_type p"
  "parent_id (decorator w u ups bms p) = parent_id p"
  "title (decorator w u ups bms p) = title p"
  "editable (decorator w u ups bms p) = w u p"
  "has_vote (decorator w u ups bms p) = (post_id p \<in> ups)"
  "has_bookmark (decorator w u ups bms p) = (post_id p \<in> bms)"
  by (simp_all add: decorator_def post.defs dpost.defs)

lemma root_fields:
  "post_id (dpost.extend d (rpost.fields ups bms al cd)) = post_id d"
  "title (dpost.extend d (rpost.fields ups bms al cd)) = title d"
  "has_vote (dpost.extend d (rpost.fields ups bms al cd)) = has_vote d"
  "has_bookmark (dpost.extend d (rpost.fields ups bms al cd)) = has_bookmark d"
  "upvotes (dpost.extend d (rpost.fields ups bms al cd)) = ups"
  "bookmarks (dpost.extend d (rpost.fields ups bms al cd)) = bms"
  "answers (dpost.extend d (rpost.fields ups bms al cd)) = al"
  "comments (dpost.extend d (rpost.fields ups bms al cd)) = cd"
  by (simp_all add: dpost.defs rpost.defs)

subsection \<open>Grouping the comments\<close>

lemma setdefault_append_keys:
  "map fst (setdefault_append k x d) =
     (if k \<in> set (map fst d) then map fst d else map fst d @ [k])"
proof (induction d)
  case Nil
  show ?case by simp
next
  case (Cons a d)
  obtain k' xs where a: "a = (k', xs)" by (cases a)
  show ?case
  proof (cases "k' = k")
    case True
    with a show ?thesis by simp
  next
    case False
    with a Cons.IH show ?thesis by simp
  qed
qed

lemma setdefault_append_lookup:
  "map_of (setdefault_append k x d) k' =
     (if k' = k then Some ((case map_of d k of None \<Rightarrow> [] | Some xs \<Rightarrow> xs) @ [x])
      else map_of d k')"
  by (induction d) (auto split: option.splits)

lemma collect_comments_keys:
  "distinct (map fst d) \<Longrightarrow> distinct (map fst (collect_comments cs d))"
proof (induction cs arbitrary: d)
  case Nil
  then show ?case by simp
next
  case (Cons x cs)
  from Cons.prems have "distinct (map fst (setdefault_append (parent_id x) x d))"
    by (simp add: setdefault_append_keys)
  then show ?case by (simp add: Cons.IH)
qed

lemma collect_comments_lookup:
  "map_of (collect_comments cs d) k =
     (case map_of d k of
        None \<Rightarrow> (if filter (\<lambda>x. parent_id x = k) cs = [] then None
                  else Some (filter (\<lambda>x. parent_id x = k) cs))
      | Some xs \<Rightarrow> Some (xs @ filter (\<lambda>x. parent_id x = k) cs))"
proof (induction cs arbitrary: d)
  case Nil
  show ?case by (simp split: option.splits)
next
  case (Cons x cs)
  show ?case
    by (simp add: Cons.IH setdefault_append_lookup split: option.splits)
qed

lemma collect_comments_empty:
  "map_of (collect_comments cs []) k =
     (if filter (\<lambda>x. parent_id x = k) cs = [] then None
      else Some (filter (\<lambda>x. parent_id x = k) cs))"
  by (simp add: collect_comments_lookup)

subsection \<open>What the handler renders\<close>

lemma upv_votes:
  "votes (snd (update_post_views c s request pst minutes)) = votes s"
proof -
  have "votes (snd (update_post_views_try c s ip since pst)) = votes s" for ip since
    by (simp add: update_post_views_try_def Let_def split: option.splits)
  then show ?thesis by (simp add: upv_snd split: option.splits)
qed

lemma post_view_toplevel:
  assumes "is_toplevel pst"
  shows "post_view c s request pk pst usr =
     post_view_thread c (snd (update_post_views c s request pst (POST_VIEW_INTERVAL c))) pst usr"
proof -
  obtain r s1 where run: "update_post_views c s request pst (POST_VIEW_INTERVAL c) = (r, s1)"
    by (cases "update_post_views c s request pst (POST_VIEW_INTERVAL c)")
  have "fst (update_post_views c s request pst (POST_VIEW_INTERVAL c)) = Inr ()"
    by (simp add: update_post_views_def Let_def split: prod.splits option.splits)
  with run have "r = Inr ()" by simp
  with run assms show ?thesis by (simp add: post_view_def)
qed

lemma decorate_thread_root:
  "snd (decorate_thread c pst usr ups bms thread) =
     dpost.extend (decorator (thread_write_access c usr pst) usr ups bms pst)
       (rpost.fields ups bms
          (filter (\<lambda>p. post_type p = Post_ANSWER c)
             (map (decorator (thread_write_access c usr pst) usr ups bms) thread))
          (collect_comments
             (filter (\<lambda>pc. post_type pc = Post_COMMENT c)
                (map (decorator (thread_write_access c usr pst) usr ups bms) thread)) []))"
  by (simp add: decorate_thread_def Let_def)

lemma post_view_thread_page:
  fixes c s1 pst usr
  defines "thread \<equiv> get_thread c s1 pst usr"
  defines "ups \<equiv> (if is_authenticated usr
          then {pid. pid \<in> post_id ` set thread \<and>
                  (\<exists>v\<in>set (votes s1). vote_post_id v = pid \<and> vote_author_id v = user_id usr
                     \<and> vote_type v = Vote_UP c)}
          else {})"
  defines "bms \<equiv> (if is_authenticated usr
          then {pid. pid \<in> post_id ` set thread \<and>
                  (\<exists>v\<in>set (votes s1). vote_post_id v = pid \<and> vote_author_id v = user_id usr
                     \<and> vote_type v = Vote_BOOKMARK c)}
          else {})"
  shows "(\<not> is_authenticated usr \<or> fst (post_view_thread c s1 pst usr) = Inr page) \<longrightarrow>
     fst (post_view_thread c s1 pst usr) =
       Inr (Render ''post_detail.html''
              [(''post'', Thread (snd (decorate_thread c pst usr ups bms thread))),
               (''html_title'', Str (title pst))])"
proof -
  have up: "getitem (vote_store c s1 thread usr) (Vote_UP c) = Inr ups"
    unfolding ups_def by (rule getitem_vote_store) simp
  have bm: "getitem (vote_store c s1 thread usr) (Vote_BOOKMARK c) = Inr bms"
    unfolding bms_def by (rule getitem_vote_store) simp
  have ttl: "title (snd (decorate_thread c pst usr ups bms thread)) = title pst"
    by (simp add: decorate_thread_root root_fields decorator_fields)
  show ?thesis
    unfolding post_view_thread_def Let_def thread_def [symmetric]
    by (simp only: up bm sum.case)
       (auto simp: ttl [symmetric] split: prod.splits option.splits)
qed

lemma collect_comments_entry:
  assumes "(k, cs) \<in> set (collect_comments xs [])"
  shows "cs = filter (\<lambda>x. parent_id x = k) xs \<and> cs \<noteq> []"
proof -
  have "distinct (map fst (collect_comments xs []))"
    by (rule collect_comments_keys) simp
  with assms have "map_of (collect_comments xs []) k = Some cs" by simp
  then show ?thesis
    by (simp add: collect_comments_empty split: if_splits)
qed

lemma filter_decorated:
  "filter (\<lambda>x. parent_id x = k)
     (filter (\<lambda>pc. post_type pc = t) (map (decorator w u ups bms) thread)) =
   map (decorator w u ups bms) (filter (\<lambda>p. post_type p = t \<and> parent_id p = k) thread)"
  by (induction thread) (auto simp: decorator_fields)

lemma rendered_from_thread:
  assumes "p \<in> set (answers (snd (decorate_thread c pst usr ups bms thread)))
           \<union> (\<Union>kc \<in> set (comments (snd (decorate_thread c pst usr ups bms thread))). set (snd kc))"
  shows "p \<in> decorator (thread_write_access c usr pst) usr ups bms ` set thread"
  using assms
proof
  assume "p \<in> set (answers (snd (decorate_thread c pst usr ups bms thread)))"
  then show ?thesis by (auto simp: decorate_thread_root root_fields)
next
  assume "p \<in> (\<Union>kc \<in> set (comments (snd (decorate_thread c pst usr ups bms thread))). set (snd kc))"
  then obtain k cs where kc: "(k, cs) \<in> set (comments (snd (decorate_thread c pst usr ups bms thread)))"
    and p: "p \<in> set cs" by auto
  from kc have "(k, cs) \<in> set (collect_comments
      (filter (\<lambda>pc. post_type pc = Post_COMMENT c)
         (map (decorator (thread_write_access c usr pst) usr ups bms) thread)) [])"
    by (simp only: decorate_thread_root root_fields)
  from collect_comments_entry [OF this]
  have "cs = filter (\<lambda>x. parent_id x = k)
      (filter (\<lambda>pc. post_type pc = Post_COMMENT c)
         (map (decorator (thread_write_access c usr pst) usr ups bms) thread))" ..
  with p show ?thesis by auto
qed

lemma post_view_page:
  fixes c s request pst usr
  defines "thread \<equiv> get_thread c (snd (update_post_views c s request pst (POST_VIEW_INTERVAL c))) pst usr"
  defines "ups \<equiv> (if is_authenticated usr
          then {pid. pid \<in> post_id ` set thread \<and>
                  (\<exists>v\<in>set (votes s). vote_post_id v = pid \<and> vote_author_id v = user_id usr
                     \<and> vote_type v = Vote_UP c)}
          else {})"
  defines "bms \<equiv> (if is_authenticated usr
          then {pid. pid \<in> post_id ` set thread \<and>
                  (\<exists>v\<in>set (votes s). vote_post_id v = pid \<and> vote_author_id v = user_id usr
                     \<and> vote_type v = Vote_BOOKMARK c)}
          else {})"
  assumes top: "is_toplevel pst"
    and ok: "\<not> is_authenticated usr \<or> fst (post_view c s request pk pst usr) = Inr page"
  shows "fst (post_view c s request pk pst usr) =
       Inr (Render ''post_detail.html''
              [(''post'', Thread (snd (decorate_thread c pst usr ups bms thread))),
               (''html_title'', Str (title pst))])"
proof -
  let ?s1 = "snd (update_post_views c s request pst (POST_VIEW_INTERVAL c))"
  have pv: "post_view c s request pk pst usr = post_view_thread c ?s1 pst usr"
    by (rule post_view_toplevel [OF top])
  from ok have "\<not> is_authenticated usr \<or> fst (post_view_thread c ?s1 pst usr) = Inr page"
    by (simp add: pv)
  with post_view_thread_page [where usr = usr and c = c and ?s1.0 = ?s1 and pst = pst and page = page]
  have "fst (post_view_thread c ?s1 pst usr) =
    Inr (Render ''post_detail.html''
          [(''post'',
            Thread
             (snd (decorate_thread c pst usr
                    (if is_authenticated usr
                     then {pid. pid \<in> post_id ` set (get_thread c ?s1 pst usr) \<and>
                           (\<exists>v\<in>set (votes ?s1).
                               vote_post_id v = pid \<and>
                               vote_author_id v = user_id usr \<and> vote_type v = Vote_UP c)}
                     else {})
                    (if is_authenticated usr
                     then {pid. pid \<in> post_id ` set (get_thread c ?s1 pst usr) \<and>
                           (\<exists>v\<in>set (votes ?s1).
                               vote_post_id v = pid \<and>
                               vote_author_id v = user_id usr \<and>
                               vote_type v = Vote_BOOKMARK c)}
                     else {})
                    (get_thread c ?s1 pst usr)))),
           (''html_title'', Str (title pst))])"
    by blast
  then show ?thesis
    unfolding pv thread_def ups_def bms_def by (simp only: upv_votes)
qed

text \<open>
  C10. For a visitor who is not authenticated the vote store of \<^verbatim>\<open>post_view\<close> stays as
  it is created, with the empty set under both keys; the page is rendered, the root post
  carries empty \<open>upvotes\<close> and \<open>bookmarks\<close>, and \<open>has_vote\<close> and \<open>has_bookmark\<close> are
  false on the root post, on every answer and on every comment of the page.
\<close>

theorem post_view_anonymous:
  assumes anon: "\<not> is_authenticated usr" and top: "is_toplevel pst"
  shows "\<exists>root.
     fst (post_view c s request pk pst usr) =
       Inr (Render ''post_detail.html''
              [(''post'', Thread root), (''html_title'', Str (title pst))])
     \<and> vote_store c (snd (update_post_views c s request pst (POST_VIEW_INTERVAL c)))
         (get_thread c (snd (update_post_views c s request pst (POST_VIEW_INTERVAL c))) pst usr) usr
       = Map.empty(Vote_UP c \<mapsto> {}, Vote_BOOKMARK c \<mapsto> {})
     \<and> upvotes root = {} \<and> bookmarks root = {}
     \<and> \<not> has_vote root \<and> \<not> has_bookmark root
     \<and> (\<forall>p \<in> set (answers root) \<union> (\<Union>kc \<in> set (comments root). set (snd kc)).
           \<not> has_vote p \<and> \<not> has_bookmark p)"
proof -
  let ?thread = "get_thread c (snd (update_post_views c s request pst (POST_VIEW_INTERVAL c))) pst usr"
  let ?root = "snd (decorate_thread c pst usr {} {} ?thread)"
  from post_view_page [OF top, of usr c s request pk] anon
  have page: "fst (post_view c s request pk pst usr) =
       Inr (Render ''post_detail.html''
              [(''post'', Thread ?root), (''html_title'', Str (title pst))])"
    by simp
  have store: "vote_store c s1 th usr = Map.empty(Vote_UP c \<mapsto> {}, Vote_BOOKMARK c \<mapsto> {})" for s1 th
    using anon by (simp add: vote_store_def)
  have sets: "upvotes ?root = {}" "bookmarks ?root = {}"
    by (simp_all add: decorate_thread_root root_fields)
  have own: "\<not> has_vote ?root" "\<not> has_bookmark ?root"
    by (simp_all add: decorate_thread_root root_fields decorator_fields)
  have others: "\<not> has_vote p \<and> \<not> has_bookmark p"
    if "p \<in> set (answers ?root) \<union> (\<Union>kc \<in> set (comments ?root). set (snd kc))" for p
  proof -
    from rendered_from_thread [OF that] obtain p0
      where "p = decorator (thread_write_access c usr pst) usr {} {} p0" by auto
    then show ?thesis by (simp add: decorator_fields)
  qed
  from page store sets own others show ?thesis by blast
qed

subsection \<open>The example thread\<close>

lemma example_view:
  "snd (update_post_views biostar forum (visit usr ''10.0.0.1'') question1 (POST_VIEW_INTERVAL biostar)) =
     forum\<lparr>postviews := [\<lparr>pv_ip = ''10.0.0.9'', pv_post_id = 1, pv_date = 990\<rparr>,
                          \<lparr>pv_ip = ''10.0.0.1'', pv_post_id = 1, pv_date = 1000\<rparr>],
           posts := [question1\<lparr>view_count := 6\<rparr>, answer2, comment3, comment4, comment5,
                     question6]\<rparr>"
  by (simp add: update_post_views_def update_post_views_try_def example_defs dict_get_def)

lemma example_thread:
  "get_thread biostar
     (snd (update_post_views biostar forum (visit usr ''10.0.0.1'') question1 (POST_VIEW_INTERVAL biostar)))
     question1 usr = [question1\<lparr>view_count := 6\<rparr>, answer2, comment3, comment4, comment5]"
  unfolding example_view by (simp add: example_defs)

lemma example_codes:
  "Post_ANSWER biostar = 1" "Post_COMMENT biostar = 6" "Vote_UP biostar = 0" "Vote_BOOKMARK biostar = 2"
  by (simp_all add: biostar_def)

lemma example_posts:
  "map post_id [question1\<lparr>view_count := 6\<rparr>, answer2, comment3, comment4, comment5] = [1, 2, 3, 4, 5]"
  "map post_type [question1\<lparr>view_count := 6\<rparr>, answer2, comment3, comment4, comment5] = [0, 1, 6, 6, 6]"
  "map parent_id [question1\<lparr>view_count := 6\<rparr>, answer2, comment3, comment4, comment5] = [1, 1, 2, 1, 2]"
  by (simp_all add: example_defs)

theorem post_view_anonymous_witness:
  "\<not> is_authenticated anonymous \<and> is_toplevel question1
   \<and> (\<exists>root.
     fst (post_view biostar forum (visit anonymous ''10.0.0.1'') 1 question1 anonymous) =
       Inr (Render ''post_detail.html''
              [(''post'', Thread root), (''html_title'', Str ''Aligning reads'')])
     \<and> upvotes root = {} \<and> bookmarks root = {}
     \<and> \<not> has_vote root \<and> \<not> has_bookmark root
     \<and> map (\<lambda>p. (post_id p, has_vote p, has_bookmark p)) (answers root) = [(2, False, False)]
     \<and> map (\<lambda>kc. (fst kc, map (\<lambda>p. (post_id p, has_vote p, has_bookmark p)) (snd kc))) (comments root) =
         [(2, [(3, False, False), (5, False, False)]), (1, [(4, False, False)])])"
proof -
  have anon: "\<not> is_authenticated anonymous" by (simp add: anonymous_def)
  have top: "is_toplevel question1" by (simp add: question1_def)
  have ttl: "title question1 = ''Aligning reads''" by (simp add: question1_def)
  from post_view_anonymous [OF anon top, of biostar forum "visit anonymous ''10.0.0.1''" 1]
  obtain root where page:
    "fst (post_view biostar forum (visit anonymous ''10.0.0.1'') 1 question1 anonymous) =
       Inr (Render ''post_detail.html''
              [(''post'', Thread root), (''html_title'', Str (title question1))])"
    and sets: "upvotes root = {}" "bookmarks root = {}" "\<not> has_vote root" "\<not> has_bookmark root"
    by blast
  from post_view_page [OF top, of anonymous biostar forum "visit anonymous ''10.0.0.1''" 1] anon
  have "fst (post_view biostar forum (visit anonymous ''10.0.0.1'') 1 question1 anonymous) =
    Inr (Render ''post_detail.html''
      [(''post'', Thread (snd (decorate_thread biostar question1 anonymous {} {}
           [question1\<lparr>view_count := 6\<rparr>, answer2, comment3, comment4, comment5]))),
       (''html_title'', Str (title question1))])"
    by (simp add: example_thread)
  with page have root: "root = snd (decorate_thread biostar question1 anonymous {} {}
           [question1\<lparr>view_count := 6\<rparr>, answer2, comment3, comment4, comment5])"
    by simp
  have ans: "map (\<lambda>p. (post_id p, has_vote p, has_bookmark p)) (answers root) = [(2, False, False)]"
    unfolding root decorate_thread_root root_fields example_codes
    using example_posts by (simp add: decorator_fields)
  have com: "map (\<lambda>kc. (fst kc, map (\<lambda>p. (post_id p, has_vote p, has_bookmark p)) (snd kc))) (comments root) =
         [(2, [(3, False, False), (5, False, False)]), (1, [(4, False, False)])]"
    unfolding root decorate_thread_root root_fields example_codes
    using example_posts by (simp add: decorator_fields)
  from page have page': "fst (post_view biostar forum (visit anonymous ''10.0.0.1'') 1 question1 anonymous) =
       Inr (Render ''post_detail.html''
              [(''post'', Thread root), (''html_title'', Str ''Aligning reads'')])"
    unfolding ttl .
  show ?thesis
  proof (intro conjI exI [where x = root])
    show "\<not> is_authenticated anonymous" by (rule anon)
    show "is_toplevel question1" by (rule top)
  qed (rule page' sets ans com)+
qed

lemma upv_users:
  "users (snd (update_post_views c s request pst minutes)) = users s"
proof -
  have "users (snd (update_post_views_try c s ip since pst)) = users s" for ip since
    by (simp add: update_post_views_try_def Let_def split: option.splits)
  then show ?thesis by (simp add: upv_snd split: option.splits)
qed

lemma add_test_comment_ok:
  assumes "users s \<noteq> []" and "ids \<noteq> []"
  shows "fst (add_test_comment c s ids) = None"
  using assms by (simp add: add_test_comment_def choice_def Let_def)

lemma post_view_renders:
  assumes top: "is_toplevel pst" and some: "is_authenticated usr \<longrightarrow> users s \<noteq> []"
  shows "\<exists>page. fst (post_view c s request pk pst usr) = Inr page"
proof -
  let ?s1 = "snd (update_post_views c s request pst (POST_VIEW_INTERVAL c))"
  let ?thread = "get_thread c ?s1 pst usr"
  have pv: "post_view c s request pk pst usr = post_view_thread c ?s1 pst usr"
    by (rule post_view_toplevel [OF top])
  obtain ups where up: "getitem (vote_store c ?s1 ?thread usr) (Vote_UP c) = Inr ups"
    using getitem_vote_store [of "Vote_UP c" c ?s1 ?thread usr] by simp
  obtain bms where bm: "getitem (vote_store c ?s1 ?thread usr) (Vote_BOOKMARK c) = Inr bms"
    using getitem_vote_store [of "Vote_BOOKMARK c" c ?s1 ?thread usr] by simp
  show ?thesis
  proof (cases "is_authenticated usr")
    case False
    then show ?thesis
      unfolding pv post_view_thread_def Let_def
      by (simp only: up bm sum.case) (simp split: prod.splits)
  next
    case True
    with some have "users ?s1 \<noteq> []" by (simp add: upv_users)
    then have ok: "fst (add_test_comment c ?s1 (ids @ [x])) = None" for ids x
      by (rule add_test_comment_ok) simp
    show ?thesis
      unfolding pv post_view_thread_def Let_def
      apply (simp only: up bm sum.case)
      apply (simp add: True split: prod.splits option.splits)
      using ok by (metis fst_conv option.distinct(1))
  qed
qed

text \<open>
  C3. For an authenticated user, on the page \<^verbatim>\<open>post_view\<close> renders: every answer and
  every comment has \<open>has_vote\<close> exactly when the user has a vote of type \<^verbatim>\<open>Vote.UP\<close> on
  it and \<open>has_bookmark\<close> exactly when the user has a vote of type \<^verbatim>\<open>Vote.BOOKMARK\<close> on
  it. The votes consulted are those on the posts of the thread the query layer returns:
  \<open>upvotes\<close> and \<open>bookmarks\<close> hold the posts of the thread with such a vote, and the root
  post has \<open>has_vote\<close> (\<open>has_bookmark\<close>) exactly when the user has such a vote on it and
  it is a post of that thread.
\<close>

theorem post_view_vote_decoration:
  assumes auth: "is_authenticated usr" and top: "is_toplevel pst"
    and page: "fst (post_view c s request pk pst usr) = Inr (Render t ctx)"
    and root: "map_of ctx ''post'' = Some (Thread root)"
  shows
   "(\<forall>p \<in> set (answers root) \<union> (\<Union>kc \<in> set (comments root). set (snd kc)).
       has_vote p = (\<exists>v\<in>set (votes s). vote_author_id v = user_id usr
                       \<and> vote_post_id v = post_id p \<and> vote_type v = Vote_UP c)
       \<and> has_bookmark p = (\<exists>v\<in>set (votes s). vote_author_id v = user_id usr
                       \<and> vote_post_id v = post_id p \<and> vote_type v = Vote_BOOKMARK c))
    \<and> post_id root = post_id pst
    \<and> has_vote root =
        (post_id pst \<in> post_id ` set (get_thread c
             (snd (update_post_views c s request pst (POST_VIEW_INTERVAL c))) pst usr)
         \<and> (\<exists>v\<in>set (votes s). vote_author_id v = user_id usr
               \<and> vote_post_id v = post_id pst \<and> vote_type v = Vote_UP c))
    \<and> has_bookmark root =
        (post_id pst \<in> post_id ` set (get_thread c
             (snd (update_post_views c s request pst (POST_VIEW_INTERVAL c))) pst usr)
         \<and> (\<exists>v\<in>set (votes s). vote_author_id v = user_id usr
               \<and> vote_post_id v = post_id pst \<and> vote_type v = Vote_BOOKMARK c))
    \<and> upvotes root =
        {pid. pid \<in> post_id ` set (get_thread c
             (snd (update_post_views c s request pst (POST_VIEW_INTERVAL c))) pst usr)
          \<and> (\<exists>v\<in>set (votes s). vote_post_id v = pid \<and> vote_author_id v = user_id usr
                \<and> vote_type v = Vote_UP c)}
    \<and> bookmarks root =
        {pid. pid \<in> post_id ` set (get_thread c
             (snd (update_post_views c s request pst (POST_VIEW_INTERVAL c))) pst usr)
          \<and> (\<exists>v\<in>set (votes s). vote_post_id v = pid \<and> vote_author_id v = user_id usr
                \<and> vote_type v = Vote_BOOKMARK c)}"
proof -
  let ?thread = "get_thread c (snd (update_post_views c s request pst (POST_VIEW_INTERVAL c))) pst usr"
  let ?ups = "{pid. pid \<in> post_id ` set ?thread \<and>
                  (\<exists>v\<in>set (votes s). vote_post_id v = pid \<and> vote_author_id v = user_id usr
                     \<and> vote_type v = Vote_UP c)}"
  let ?bms = "{pid. pid \<in> post_id ` set ?thread \<and>
                  (\<exists>v\<in>set (votes s). vote_post_id v = pid \<and> vote_author_id v = user_id usr
                     \<and> vote_type v = Vote_BOOKMARK c)}"
  let ?root = "snd (decorate_thread c pst usr ?ups ?bms ?thread)"
  from post_view_page [OF top, of usr c s request pk "Render t ctx"] page auth
  have "fst (post_view c s request pk pst usr) =
       Inr (Render ''post_detail.html''
              [(''post'', Thread ?root), (''html_title'', Str (title pst))])"
    by simp
  with page have "ctx = [(''post'', Thread ?root), (''html_title'', Str (title pst))]" by simp
  with root have r: "root = ?root" by simp
  have rendered: "has_vote p = (\<exists>v\<in>set (votes s). vote_author_id v = user_id usr
                       \<and> vote_post_id v = post_id p \<and> vote_type v = Vote_UP c)
       \<and> has_bookmark p = (\<exists>v\<in>set (votes s). vote_author_id v = user_id usr
                       \<and> vote_post_id v = post_id p \<and> vote_type v = Vote_BOOKMARK c)"
    if "p \<in> set (answers root) \<union> (\<Union>kc \<in> set (comments root). set (snd kc))" for p
  proof -
    from that rendered_from_thread [of p c pst usr ?ups ?bms ?thread] obtain p0
      where p0: "p0 \<in> set ?thread"
        and p: "p = decorator (thread_write_access c usr pst) usr ?ups ?bms p0"
      unfolding r by blast
    from p0 have "post_id p0 \<in> post_id ` set ?thread" by simp
    then show ?thesis
      unfolding p decorator_fields by (simp only: mem_Collect_eq) blast
  qed
  have own: "post_id root = post_id pst"
    "has_vote root = (post_id pst \<in> ?ups)" "has_bookmark root = (post_id pst \<in> ?bms)"
    "upvotes root = ?ups" "bookmarks root = ?bms"
    unfolding r by (simp_all only: decorate_thread_root root_fields decorator_fields)
  have up: "(post_id pst \<in> ?ups) = (post_id pst \<in> post_id ` set ?thread
         \<and> (\<exists>v\<in>set (votes s). vote_author_id v = user_id usr
               \<and> vote_post_id v = post_id pst \<and> vote_type v = Vote_UP c))"
    by (simp only: mem_Collect_eq) blast
  have bm: "(post_id pst \<in> ?bms) = (post_id pst \<in> post_id ` set ?thread
         \<and> (\<exists>v\<in>set (votes s). vote_author_id v = user_id usr
               \<and> vote_post_id v = post_id pst \<and> vote_type v = Vote_BOOKMARK c))"
    by (simp only: mem_Collect_eq) blast
  show ?thesis
  proof (intro conjI ballI)
    fix p assume "p \<in> set (answers root) \<union> (\<Union>kc \<in> set (comments root). set (snd kc))"
    from rendered [OF this]
    show "has_vote p = (\<exists>v\<in>set (votes s). vote_author_id v = user_id usr
                       \<and> vote_post_id v = post_id p \<and> vote_type v = Vote_UP c)"
      and "has_bookmark p = (\<exists>v\<in>set (votes s). vote_author_id v = user_id usr
                       \<and> vote_post_id v = post_id p \<and> vote_type v = Vote_BOOKMARK c)"
      by blast+
  next
    show "post_id root = post_id pst" by (rule own)
    show "has_vote root = (post_id pst \<in> post_id ` set ?thread
         \<and> (\<exists>v\<in>set (votes s). vote_author_id v = user_id usr
               \<and> vote_post_id v = post_id pst \<and> vote_type v = Vote_UP c))"
      unfolding own(2) by (rule up)
    show "has_bookmark root = (post_id pst \<in> post_id ` set ?thread
         \<and> (\<exists>v\<in>set (votes s). vote_author_id v = user_id usr
               \<and> vote_post_id v = post_id pst \<and> vote_type v = Vote_BOOKMARK c))"
      unfolding own(3) by (rule bm)
    show "upvotes root = ?ups" by (rule own)
    show "bookmarks root = ?bms" by (rule own)
  qed
qed

lemma example_votes:
  "{pid. pid \<in> post_id ` set [question1\<lparr>view_count := 6\<rparr>, answer2, comment3, comment4, comment5]
      \<and> (\<exists>v\<in>set (votes forum). vote_post_id v = pid \<and> vote_author_id v = user_id ada
            \<and> vote_type v = Vote_UP biostar)} = {1}"
  "{pid. pid \<in> post_id ` set [question1\<lparr>view_count := 6\<rparr>, answer2, comment3, comment4, comment5]
      \<and> (\<exists>v\<in>set (votes forum). vote_post_id v = pid \<and> vote_author_id v = user_id ada
            \<and> vote_type v = Vote_BOOKMARK biostar)} = {2}"
  by (auto simp: example_defs)

theorem post_view_vote_decoration_witness:
  "is_authenticated ada \<and> is_toplevel question1
   \<and> (\<exists>root.
     fst (post_view biostar forum (visit ada ''10.0.0.1'') 1 question1 ada) =
       Inr (Render ''post_detail.html''
              [(''post'', Thread root), (''html_title'', Str ''Aligning reads'')])
     \<and> upvotes root = {1} \<and> bookmarks root = {2}
     \<and> has_vote root \<and> \<not> has_bookmark root
     \<and> map (\<lambda>p. (post_id p, has_vote p, has_bookmark p)) (answers root) = [(2, False, True)]
     \<and> map (\<lambda>kc. (fst kc, map (\<lambda>p. (post_id p, has_vote p, has_bookmark p)) (snd kc))) (comments root) =
         [(2, [(3, False, False), (5, False, False)]), (1, [(4, False, False)])])"
proof -
  have auth: "is_authenticated ada" by (simp add: ada_def)
  have top: "is_toplevel question1" by (simp add: question1_def)
  have ttl: "title question1 = ''Aligning reads''" by (simp add: question1_def)
  have "is_authenticated ada \<longrightarrow> users forum \<noteq> []" by (simp add: forum_def)
  from post_view_renders [OF top this, of biostar "visit ada ''10.0.0.1''" 1]
  obtain page where "fst (post_view biostar forum (visit ada ''10.0.0.1'') 1 question1 ada) = Inr page"
    by blast
  from post_view_page [OF top, of ada biostar forum "visit ada ''10.0.0.1''" 1 page] this
  have page: "fst (post_view biostar forum (visit ada ''10.0.0.1'') 1 question1 ada) =
    Inr (Render ''post_detail.html''
      [(''post'', Thread (snd (decorate_thread biostar question1 ada {1} {2}
           [question1\<lparr>view_count := 6\<rparr>, answer2, comment3, comment4, comment5]))),
       (''html_title'', Str ''Aligning reads'')])" (is "_ = Inr (Render _ [(_, Thread ?root), _])")
    by (simp only: example_thread example_votes auth if_True ttl) simp
  have ctx: "map_of [(''post'', Thread ?root), (''html_title'', Str ''Aligning reads'')] ''post''
      = Some (Thread ?root)" by simp
  note fact = post_view_vote_decoration [OF auth top page ctx]
  have thread: "post_id question1 \<in> post_id ` set (get_thread biostar
      (snd (update_post_views biostar forum (visit ada ''10.0.0.1'') question1 (POST_VIEW_INTERVAL biostar)))
      question1 ada)"
    unfolding example_thread by (simp add: example_defs)
  have up: "\<exists>v\<in>set (votes forum). vote_author_id v = user_id ada
      \<and> vote_post_id v = post_id question1 \<and> vote_type v = Vote_UP biostar"
    by (simp add: example_defs)
  have bm: "\<not> (\<exists>v\<in>set (votes forum). vote_author_id v = user_id ada
      \<and> vote_post_id v = post_id question1 \<and> vote_type v = Vote_BOOKMARK biostar)"
    by (simp add: example_defs)
  from fact thread up have hv: "has_vote ?root" by blast
  from fact bm have hb: "\<not> has_bookmark ?root" by blast
  have sets: "upvotes ?root = {1}" "bookmarks ?root = {2}"
    by (simp_all only: decorate_thread_root root_fields)
  have ans: "map (\<lambda>p. (post_id p, has_vote p, has_bookmark p)) (answers ?root) = [(2, False, True)]"
    unfolding decorate_thread_root root_fields example_codes
    using example_posts by (simp add: decorator_fields)
  have com: "map (\<lambda>kc. (fst kc, map (\<lambda>p. (post_id p, has_vote p, has_bookmark p)) (snd kc))) (comments ?root) =
         [(2, [(3, False, False), (5, False, False)]), (1, [(4, False, False)])]"
    unfolding decorate_thread_root root_fields example_codes
    using example_posts by (simp add: decorator_fields)
  show ?thesis
  proof (intro conjI exI [where x = ?root])
    show "is_authenticated ada" by (rule auth)
    show "is_toplevel question1" by (rule top)
  qed (rule page sets hv hb ans com)+
qed

text \<open>
  C2. On the page \<^verbatim>\<open>post_view\<close> renders, \<open>comments\<close> of the root post is a dictionary
  with one entry for each parent that has a comment in the thread: under the key \<open>k\<close>
  stands the list of the decorated posts of the thread that have type
  \<^verbatim>\<open>Post.COMMENT\<close> and parent \<open>k\<close>, in the order of the thread the query layer returned.
  So every comment of the thread stands under its parent's id, and nothing but comments
  with that parent stands under a key.
\<close>

theorem post_view_comments_grouped:
  assumes top: "is_toplevel pst"
    and page: "fst (post_view c s request pk pst usr) = Inr (Render t ctx)"
    and root: "map_of ctx ''post'' = Some (Thread root)"
  shows
   "distinct (map fst (comments root))
    \<and> (\<forall>k. map_of (comments root) k =
         (if filter (\<lambda>p. post_type p = Post_COMMENT c \<and> parent_id p = k)
               (get_thread c (snd (update_post_views c s request pst (POST_VIEW_INTERVAL c))) pst usr) = []
          then None
          else Some (map (decorator (thread_write_access c usr pst) usr (upvotes root) (bookmarks root))
                 (filter (\<lambda>p. post_type p = Post_COMMENT c \<and> parent_id p = k)
                    (get_thread c (snd (update_post_views c s request pst (POST_VIEW_INTERVAL c)))
                       pst usr)))))
    \<and> (\<forall>p \<in> set (get_thread c (snd (update_post_views c s request pst (POST_VIEW_INTERVAL c))) pst usr).
          post_type p = Post_COMMENT c \<longrightarrow>
          (\<exists>cs. (parent_id p, cs) \<in> set (comments root)
             \<and> decorator (thread_write_access c usr pst) usr (upvotes root) (bookmarks root) p \<in> set cs))
    \<and> (\<forall>kc \<in> set (comments root). \<forall>x \<in> set (snd kc).
          post_type x = Post_COMMENT c \<and> parent_id x = fst kc)"
proof -
  let ?thread = "get_thread c (snd (update_post_views c s request pst (POST_VIEW_INTERVAL c))) pst usr"
  let ?dec = "decorator (thread_write_access c usr pst) usr (upvotes root) (bookmarks root)"
  let ?cl = "filter (\<lambda>pc. post_type pc = Post_COMMENT c) (map ?dec ?thread)"
  from post_view_page [OF top, of usr c s request pk "Render t ctx"] page
  obtain ups bms where "fst (post_view c s request pk pst usr) =
       Inr (Render ''post_detail.html''
              [(''post'', Thread (snd (decorate_thread c pst usr ups bms ?thread))),
               (''html_title'', Str (title pst))])"
    by blast
  with page have "ctx = [(''post'', Thread (snd (decorate_thread c pst usr ups bms ?thread))),
       (''html_title'', Str (title pst))]" by simp
  with root have r: "root = snd (decorate_thread c pst usr ups bms ?thread)" by simp
  have "upvotes root = ups" "bookmarks root = bms"
    unfolding r by (simp_all only: decorate_thread_root root_fields)
  then have com: "comments root = collect_comments ?cl []"
    unfolding r by (simp only: decorate_thread_root root_fields)
  have keys: "distinct (map fst (comments root))"
    unfolding com by (rule collect_comments_keys) simp
  have look: "map_of (comments root) k =
         (if filter (\<lambda>p. post_type p = Post_COMMENT c \<and> parent_id p = k) ?thread = [] then None
          else Some (map ?dec (filter (\<lambda>p. post_type p = Post_COMMENT c \<and> parent_id p = k) ?thread)))"
    for k
    unfolding com collect_comments_empty filter_decorated by simp
  have placed: "\<exists>cs. (parent_id p, cs) \<in> set (comments root) \<and> ?dec p \<in> set cs"
    if p: "p \<in> set ?thread" and ty: "post_type p = Post_COMMENT c" for p
  proof -
    let ?cs = "filter (\<lambda>x. post_type x = Post_COMMENT c \<and> parent_id x = parent_id p) ?thread"
    from p ty have mem: "p \<in> set ?cs" by simp
    have "?cs \<noteq> []"
      using length_pos_if_in_set [OF mem] by (simp only: length_greater_0_conv not_False_eq_True)
    with look [of "parent_id p"] have "map_of (comments root) (parent_id p) = Some (map ?dec ?cs)"
      by simp
    then have "(parent_id p, map ?dec ?cs) \<in> set (comments root)" by (rule map_of_SomeD)
    moreover from mem have "?dec p \<in> set (map ?dec ?cs)" by (simp only: set_map image_eqI [OF refl])
    ultimately show ?thesis by blast
  qed
  have only: "post_type x = Post_COMMENT c \<and> parent_id x = fst kc"
    if kc: "kc \<in> set (comments root)" and x: "x \<in> set (snd kc)" for kc x
  proof -
    from kc have "(fst kc, snd kc) \<in> set (collect_comments ?cl [])" by (simp add: com)
    from collect_comments_entry [OF this]
    have "snd kc = filter (\<lambda>x. parent_id x = fst kc) ?cl" ..
    with x show ?thesis by auto
  qed
  from keys look placed only show ?thesis by blast
qed

theorem post_view_comments_grouped_witness:
  "is_toplevel question1
   \<and> (\<exists>root.
     fst (post_view biostar forum (visit anonymous ''10.0.0.1'') 1 question1 anonymous) =
       Inr (Render ''post_detail.html''
              [(''post'', Thread root), (''html_title'', Str ''Aligning reads'')])
     \<and> map (\<lambda>kc. (fst kc, map post_id (snd kc))) (comments root) = [(2, [3, 5]), (1, [4])]
     \<and> map_of (comments root) 2 =
         Some (map (decorator (thread_write_access biostar anonymous question1) anonymous {} {})
                 [comment3, comment5])
     \<and> map_of (comments root) 3 = None)"
proof -
  have anon: "\<not> is_authenticated anonymous" by (simp add: anonymous_def)
  have top: "is_toplevel question1" by (simp add: question1_def)
  have ttl: "title question1 = ''Aligning reads''" by (simp add: question1_def)
  from post_view_page [OF top, of anonymous biostar forum "visit anonymous ''10.0.0.1''" 1] anon
  have page: "fst (post_view biostar forum (visit anonymous ''10.0.0.1'') 1 question1 anonymous) =
    Inr (Render ''post_detail.html''
      [(''post'', Thread (snd (decorate_thread biostar question1 anonymous {} {}
           [question1\<lparr>view_count := 6\<rparr>, answer2, comment3, comment4, comment5]))),
       (''html_title'', Str ''Aligning reads'')])" (is "_ = Inr (Render _ [(_, Thread ?root), _])")
    by (simp only: example_thread if_False ttl) simp
  have ctx: "map_of [(''post'', Thread ?root), (''html_title'', Str ''Aligning reads'')] ''post''
      = Some (Thread ?root)" by simp
  have sets: "upvotes ?root = {}" "bookmarks ?root = {}"
    by (simp_all only: decorate_thread_root root_fields)
  have f2: "filter (\<lambda>p. post_type p = Post_COMMENT biostar \<and> parent_id p = 2)
      [question1\<lparr>view_count := 6\<rparr>, answer2, comment3, comment4, comment5] = [comment3, comment5]"
    by (simp add: example_defs)
  have f3: "filter (\<lambda>p. post_type p = Post_COMMENT biostar \<and> parent_id p = 3)
      [question1\<lparr>view_count := 6\<rparr>, answer2, comment3, comment4, comment5] = []"
    by (simp add: example_defs)
  note fact = post_view_comments_grouped [OF top page ctx, THEN conjunct2, THEN conjunct1]
  from fact [THEN spec, of 2]
  have l2: "map_of (comments ?root) 2 =
         Some (map (decorator (thread_write_access biostar anonymous question1) anonymous {} {})
                 [comment3, comment5])"
    unfolding example_thread f2 sets by simp
  from fact [THEN spec, of 3]
  have l3: "map_of (comments ?root) 3 = None"
    unfolding example_thread f3 sets by simp
  have com: "map (\<lambda>kc. (fst kc, map post_id (snd kc))) (comments ?root) = [(2, [3, 5]), (1, [4])]"
    unfolding decorate_thread_root root_fields example_codes
    using example_posts by (simp add: decorator_fields)
  show ?thesis
  proof (intro conjI exI [where x = ?root])
    show "is_toplevel question1" by (rule top)
  qed (rule page com l2 l3)+
qed

section \<open>A failed view record does not stop the page\<close>

lemma post_view_thread_errlog:
  "errlog (snd (post_view_thread c s1 pst usr)) = errlog s1"
proof -
  have "errlog (snd (add_test_comment c s1 ids)) = errlog s1" for ids
    by (simp add: add_test_comment_def Let_def split: sum.splits)
  then have "errlog s2 = errlog s1" if "add_test_comment c s1 ids = (e, s2)" for ids e s2
    using that by (metis snd_conv)
  then show ?thesis
    by (auto simp: post_view_thread_def Let_def split: sum.splits prod.splits option.splits)
qed

text \<open>
  C4. \<^verbatim>\<open>update_post_views\<close> always returns normally, whatever the three database calls
  of its \<^verbatim>\<open>try\<close> block do: an exception raised there is appended to the log and goes no
  further. So \<^verbatim>\<open>post_view\<close> on a toplevel post renders the thread page, the decorated
  thread read from the state the call left, also when recording the view has failed, and
  the exception is then in the log of the state the handler leaves. (An authenticated
  user is a row of the users table, so that table is not empty. The two calls before the
  \<^verbatim>\<open>try\<close>, \<^verbatim>\<open>auth.remote_ip\<close> and \<^verbatim>\<open>auth.ago\<close>, are total functions of the environment.)
\<close>

theorem update_post_views_swallows:
  "fst (update_post_views c s request pst minutes) = Inr ()
   \<and> (\<forall>exc. fst (update_post_views_try c s (remote_ip c request) (ago c minutes) pst) = Some exc
        \<longrightarrow> errlog (snd (update_post_views c s request pst minutes)) = errlog s @ [exc])
   \<and> (is_toplevel pst \<longrightarrow>
        post_view c s request pk pst usr =
          post_view_thread c (snd (update_post_views c s request pst (POST_VIEW_INTERVAL c))) pst usr)
   \<and> (is_toplevel pst \<and> (is_authenticated usr \<longrightarrow> users s \<noteq> []) \<longrightarrow>
        fst (post_view c s request pk pst usr) =
          Inr (Render ''post_detail.html''
            [(''post'', Thread (snd (decorate_thread c pst usr
                (if is_authenticated usr
                 then {pid. pid \<in> post_id ` set (get_thread c
                           (snd (update_post_views c s request pst (POST_VIEW_INTERVAL c))) pst usr)
                        \<and> (\<exists>v\<in>set (votes s). vote_post_id v = pid
                              \<and> vote_author_id v = user_id usr \<and> vote_type v = Vote_UP c)}
                 else {})
                (if is_authenticated usr
                 then {pid. pid \<in> post_id ` set (get_thread c
                           (snd (update_post_views c s request pst (POST_VIEW_INTERVAL c))) pst usr)
                        \<and> (\<exists>v\<in>set (votes s). vote_post_id v = pid
                              \<and> vote_author_id v = user_id usr \<and> vote_type v = Vote_BOOKMARK c)}
                 else {})
                (get_thread c
                   (snd (update_post_views c s request pst (POST_VIEW_INTERVAL c))) pst usr)))),
             (''html_title'', Str (title pst))])
        \<and> (\<forall>exc. fst (update_post_views_try c s (remote_ip c request)
                       (ago c (POST_VIEW_INTERVAL c)) pst) = Some exc
              \<longrightarrow> errlog (snd (post_view c s request pk pst usr)) = errlog s @ [exc]))"
proof (intro conjI allI impI)
  show "fst (update_post_views c s request pst minutes) = Inr ()"
    by (simp add: update_post_views_def Let_def split: prod.splits option.splits)
  show logged: "errlog (snd (update_post_views c s request pst minutes)) = errlog s @ [exc]"
    if "fst (update_post_views_try c s (remote_ip c request) (ago c minutes) pst) = Some exc"
    for exc minutes
    using that by (simp add: upv_snd)
  show "post_view c s request pk pst usr =
          post_view_thread c (snd (update_post_views c s request pst (POST_VIEW_INTERVAL c))) pst usr"
    if "is_toplevel pst"
    by (rule post_view_toplevel [OF that])
  show "errlog (snd (post_view c s request pk pst usr)) = errlog s @ [exc]"
    if "is_toplevel pst \<and> (is_authenticated usr \<longrightarrow> users s \<noteq> [])"
      and "fst (update_post_views_try c s (remote_ip c request)
             (ago c (POST_VIEW_INTERVAL c)) pst) = Some exc" for exc
    using that logged [of "POST_VIEW_INTERVAL c" exc]
    by (simp add: post_view_toplevel post_view_thread_errlog)
next
  assume ok: "is_toplevel pst \<and> (is_authenticated usr \<longrightarrow> users s \<noteq> [])"
  then have top: "is_toplevel pst" and some: "is_authenticated usr \<longrightarrow> users s \<noteq> []"
    by blast+
  from post_view_renders [OF top some, of c request pk]
  obtain page where "fst (post_view c s request pk pst usr) = Inr page" by blast
  then have "\<not> is_authenticated usr \<or> fst (post_view c s request pk pst usr) = Inr page" by blast
  from post_view_page [OF top this]
  show "fst (post_view c s request pk pst usr) =
          Inr (Render ''post_detail.html''
            [(''post'', Thread (snd (decorate_thread c pst usr
                (if is_authenticated usr
                 then {pid. pid \<in> post_id ` set (get_thread c
                           (snd (update_post_views c s request pst (POST_VIEW_INTERVAL c))) pst usr)
                        \<and> (\<exists>v\<in>set (votes s). vote_post_id v = pid
                              \<and> vote_author_id v = user_id usr \<and> vote_type v = Vote_UP c)}
                 else {})
                (if is_authenticated usr
                 then {pid. pid \<in> post_id ` set (get_thread c
                           (snd (update_post_views c s request pst (POST_VIEW_INTERVAL c))) pst usr)
                        \<and> (\<exists>v\<in>set (votes s). vote_post_id v = pid
                              \<and> vote_author_id v = user_id usr \<and> vote_type v = Vote_BOOKMARK c)}
                 else {})
                (get_thread c
                   (snd (update_post_views c s request pst (POST_VIEW_INTERVAL c))) pst usr)))),
             (''html_title'', Str (title pst))])" .
qed

lemma example_failed_view:
  "update_post_views biostar forum (visit usr ''not-an-address'') question1 (POST_VIEW_INTERVAL biostar) =
     (Inr (), forum\<lparr>errlog := [OrmError ''invalid input for type inet'']\<rparr>)"
  by (simp add: update_post_views_def update_post_views_try_def example_defs dict_get_def)

lemma example_failed_thread:
  "get_thread biostar
     (snd (update_post_views biostar forum (visit usr ''not-an-address'') question1
        (POST_VIEW_INTERVAL biostar)))
     question1 usr = [question1, answer2, comment3, comment4, comment5]"
  unfolding example_failed_view by (simp add: example_defs)

lemma example_failed_votes:
  "{pid. pid \<in> post_id ` set [question1, answer2, comment3, comment4, comment5]
      \<and> (\<exists>v\<in>set (votes forum). vote_post_id v = pid \<and> vote_author_id v = user_id ada
            \<and> vote_type v = Vote_UP biostar)} = {1}"
  "{pid. pid \<in> post_id ` set [question1, answer2, comment3, comment4, comment5]
      \<and> (\<exists>v\<in>set (votes forum). vote_post_id v = pid \<and> vote_author_id v = user_id ada
            \<and> vote_type v = Vote_BOOKMARK biostar)} = {2}"
  by (auto simp: example_defs)

lemma example_failed_posts:
  "map post_id [question1, answer2, comment3, comment4, comment5] = [1, 2, 3, 4, 5]"
  "map post_type [question1, answer2, comment3, comment4, comment5] = [0, 1, 6, 6, 6]"
  "map parent_id [question1, answer2, comment3, comment4, comment5] = [1, 1, 2, 1, 2]"
  by (simp_all add: example_defs)

theorem update_post_views_swallows_witness:
  "update_post_views biostar forum (visit ada ''not-an-address'') question1 5 =
     (Inr (), forum\<lparr>errlog := [OrmError ''invalid input for type inet'']\<rparr>)
   \<and> fst (update_post_views_try biostar forum ''not-an-address'' 700 question1) =
       Some (OrmError ''invalid input for type inet'')
   \<and> is_toplevel question1 \<and> is_authenticated ada \<and> users forum \<noteq> []
   \<and> (\<exists>root.
       fst (post_view biostar forum (visit ada ''not-an-address'') 1 question1 ada) =
         Inr (Render ''post_detail.html''
                [(''post'', Thread root), (''html_title'', Str ''Aligning reads'')])
       \<and> post_id root = 1 \<and> has_vote root \<and> \<not> has_bookmark root
       \<and> map (\<lambda>p. (post_id p, has_vote p, has_bookmark p)) (answers root) = [(2, False, True)]
       \<and> map (\<lambda>kc. (fst kc, map post_id (snd kc))) (comments root) = [(2, [3, 5]), (1, [4])])
   \<and> errlog (snd (post_view biostar forum (visit ada ''not-an-address'') 1 question1 ada)) =
       [OrmError ''invalid input for type inet'']"
proof -
  have upv: "update_post_views biostar forum (visit ada ''not-an-address'') question1 5 =
     (Inr (), forum\<lparr>errlog := [OrmError ''invalid input for type inet'']\<rparr>)"
    using example_failed_view [of ada] by (simp add: biostar_def)
  have raised: "fst (update_post_views_try biostar forum ''not-an-address'' 700 question1) =
       Some (OrmError ''invalid input for type inet'')"
    by (simp add: update_post_views_try_def example_defs)
  have args: "remote_ip biostar (visit ada ''not-an-address'') = ''not-an-address''"
    "ago biostar (POST_VIEW_INTERVAL biostar) = 700"
    by (simp_all add: example_defs dict_get_def)
  have top: "is_toplevel question1" by (simp add: question1_def)
  have auth: "is_authenticated ada" by (simp add: ada_def)
  have some: "users forum \<noteq> []" by (simp add: forum_def)
  have ttl: "title question1 = ''Aligning reads''" by (simp add: question1_def)
  have empty: "errlog forum = []" by (simp add: forum_def)
  have pre: "is_toplevel question1 \<and> (is_authenticated ada \<longrightarrow> users forum \<noteq> [])"
    using top some by simp
  note fact = update_post_views_swallows
    [of biostar forum "visit ada ''not-an-address''" question1 5 1 ada,
     THEN conjunct2, THEN conjunct2, THEN conjunct2, THEN mp, OF pre]
  from fact [THEN conjunct1]
  have page: "fst (post_view biostar forum (visit ada ''not-an-address'') 1 question1 ada) =
    Inr (Render ''post_detail.html''
      [(''post'', Thread (snd (decorate_thread biostar question1 ada {1} {2}
           [question1, answer2, comment3, comment4, comment5]))),
       (''html_title'', Str ''Aligning reads'')])" (is "_ = Inr (Render _ [(_, Thread ?root), _])")
    by (simp only: example_failed_thread example_failed_votes auth if_True ttl)
  from fact [THEN conjunct2, THEN spec, of "OrmError ''invalid input for type inet''"] raised
  have log: "errlog (snd (post_view biostar forum (visit ada ''not-an-address'') 1 question1 ada)) =
       [OrmError ''invalid input for type inet'']"
    by (simp only: args empty) simp
  have own: "post_id ?root = 1" "has_vote ?root" "\<not> has_bookmark ?root"
    by (simp_all add: decorate_thread_root root_fields decorator_fields question1_def)
  have ans: "map (\<lambda>p. (post_id p, has_vote p, has_bookmark p)) (answers ?root) = [(2, False, True)]"
    unfolding decorate_thread_root root_fields example_codes
    using example_failed_posts by (simp add: decorator_fields)
  have com: "map (\<lambda>kc. (fst kc, map post_id (snd kc))) (comments ?root) = [(2, [3, 5]), (1, [4])]"
    unfolding decorate_thread_root root_fields example_codes
    using example_failed_posts by (simp add: decorator_fields)
  show ?thesis
  proof (intro conjI exI [where x = ?root])
    show "is_toplevel question1" by (rule top)
    show "is_authenticated ada" by (rule auth)
    show "users forum \<noteq> []" by (rule some)
  qed (rule upv raised page own ans com log)+
qed

section \<open>Filtering by tags\<close>

lemma str_split_append:
  "sep \<notin> set a \<Longrightarrow> str_split sep (a @ sep # rest) = a # str_split sep rest"
  by (induction a) auto

lemma str_split_no_sep:
  "sep \<notin> set a \<Longrightarrow> str_split sep a = [a]"
  by (induction a) auto

lemma str_split_two:
  assumes "sep \<notin> set a" and "sep \<notin> set b"
  shows "str_split sep (a @ [sep] @ b) = [a, b]"
  using assms by (simp add: str_split_append str_split_no_sep)

lemma set_filter_tags_name_in:
  "set (filter_tags_name_in names ps) =
     {p \<in> set ps. \<exists>t \<in> set (tag_names p). t \<in> set names}"
  by (auto simp: filter_tags_name_in_def)

text \<open>
  C1, as the code has it. With a name made of two tag names joined by \<open>+\<close>,
  \<^verbatim>\<open>tag_filter\<close> hands to the paginator the toplevel posts that carry at least one of
  the two tags, and renders the list template on the page the paginator makes of them.
\<close>

theorem tag_filter_either_tag:
  assumes "CHR ''+'' \<notin> set a" and "CHR ''+'' \<notin> set b"
  shows
   "set (tag_filter_posts c s request (a @ ''+'' @ b)) =
      {p \<in> set (get_toplevel_posts c s (req_user request) (req_group request)).
         a \<in> set (tag_names p) \<or> b \<in> set (tag_names p)}
    \<and> tag_filter c s request (a @ ''+'' @ b) =
       (Render ''post_list.html''
          [(''page'', PostPage (PostPaginator c request
              (tag_filter_posts c s request (a @ ''+'' @ b)) (POSTS_PER_PAGE c) False)),
           (''posts'', PostList (object_list (PostPaginator c request
              (tag_filter_posts c s request (a @ ''+'' @ b)) (POSTS_PER_PAGE c) False))),
           (''recent_votes'', VoteList (recent_votes c
              (messages_info s (''Filtering for tags: '' @ a @ ''+'' @ b)))),
           (''html_title'', Str ''Post List'')],
        messages_info s (''Filtering for tags: '' @ a @ ''+'' @ b))"
proof
  have "str_split CHR ''+'' (a @ ''+'' @ b) = [a, b]"
    by (rule str_split_two [OF assms])
  then show "set (tag_filter_posts c s request (a @ ''+'' @ b)) =
      {p \<in> set (get_toplevel_posts c s (req_user request) (req_group request)).
         a \<in> set (tag_names p) \<or> b \<in> set (tag_names p)}"
    unfolding tag_filter_posts_def Let_def set_filter_tags_name_in by auto
next
  show "tag_filter c s request (a @ ''+'' @ b) =
       (Render ''post_list.html''
          [(''page'', PostPage (PostPaginator c request
              (tag_filter_posts c s request (a @ ''+'' @ b)) (POSTS_PER_PAGE c) False)),
           (''posts'', PostList (object_list (PostPaginator c request
              (tag_filter_posts c s request (a @ ''+'' @ b)) (POSTS_PER_PAGE c) False))),
           (''recent_votes'', VoteList (recent_votes c
              (messages_info s (''Filtering for tags: '' @ a @ ''+'' @ b)))),
           (''html_title'', Str ''Post List'')],
        messages_info s (''Filtering for tags: '' @ a @ ''+'' @ b))"
    by (simp add: tag_filter_def post_list_def Let_def)
qed

lemma example_tag_filter:
  "tag_filter_posts biostar forum (visit anonymous ''10.0.0.1'') ''rna+galaxy'' = [question1, question6]"
  by (simp add: tag_filter_posts_def filter_tags_name_in_def example_defs)

theorem tag_filter_either_tag_witness:
  "CHR ''+'' \<notin> set ''rna'' \<and> CHR ''+'' \<notin> set ''galaxy''
   \<and> set (tag_filter_posts biostar forum (visit anonymous ''10.0.0.1'') ''rna+galaxy'') =
       {question1, question6}
   \<and> fst (tag_filter biostar forum (visit anonymous ''10.0.0.1'') ''rna+galaxy'') =
       Render ''post_list.html''
          [(''page'', PostPage \<lparr>object_list = [question1, question6], page_number = 1\<rparr>),
           (''posts'', PostList [question1, question6]),
           (''recent_votes'', VoteList (votes forum)),
           (''html_title'', Str ''Post List'')]
   \<and> flash (snd (tag_filter biostar forum (visit anonymous ''10.0.0.1'') ''rna+galaxy'')) =
       [''Filtering for tags: rna+galaxy'']"
proof -
  have a: "CHR ''+'' \<notin> set ''rna''" and b: "CHR ''+'' \<notin> set ''galaxy''" by simp_all
  have pg: "PostPaginator biostar r [question1, question6] (POSTS_PER_PAGE biostar) False =
      \<lparr>object_list = [question1, question6], page_number = 1\<rparr>" for r
    by (simp add: biostar_def)
  have rv: "recent_votes biostar (messages_info forum m) = votes forum" for m
    by (simp add: biostar_def messages_info_def forum_def)
  have fl: "flash (messages_info forum m) = [m]" for m
    by (simp add: messages_info_def forum_def)
  from tag_filter_either_tag [OF a b, of biostar forum "visit anonymous ''10.0.0.1''"]
  have "set (tag_filter_posts biostar forum (visit anonymous ''10.0.0.1'') ''rna+galaxy'') =
       {question1, question6}"
    and "tag_filter biostar forum (visit anonymous ''10.0.0.1'') ''rna+galaxy'' =
       (Render ''post_list.html''
          [(''page'', PostPage \<lparr>object_list = [question1, question6], page_number = 1\<rparr>),
           (''posts'', PostList [question1, question6]),
           (''recent_votes'', VoteList (votes forum)),
           (''html_title'', Str ''Post List'')],
        messages_info forum ''Filtering for tags: rna+galaxy'')"
    by (simp_all add: example_tag_filter pg rv)
  with a b show ?thesis by (simp add: fl)
qed

text \<open>
  C1 as it is stated fails: for the name \<open>rna+galaxy\<close> the rendered list holds a post
  tagged \<open>rna\<close> alone and a post tagged \<open>galaxy\<close> and not \<open>rna\<close>.
\<close>

theorem tag_filter_both_tags_counterexample:
  "fst (tag_filter biostar forum (visit anonymous ''10.0.0.1'') ''rna+galaxy'') =
       Render ''post_list.html''
          [(''page'', PostPage \<lparr>object_list = [question1, question6], page_number = 1\<rparr>),
           (''posts'', PostList [question1, question6]),
           (''recent_votes'', VoteList (votes forum)),
           (''html_title'', Str ''Post List'')]
   \<and> tag_names question1 = [''rna'']
   \<and> ''galaxy'' \<notin> set (tag_names question1)
   \<and> ''rna'' \<notin> set (tag_names question6)"
proof -
  have run: "tag_filter biostar forum (visit anonymous ''10.0.0.1'') ''rna+galaxy'' =
      post_list biostar (messages_info forum ''Filtering for tags: rna+galaxy'')
        (visit anonymous ''10.0.0.1'') (Some [question1, question6])"
    by (simp add: tag_filter_def example_tag_filter)
  have list: "fst (post_list biostar (messages_info forum ''Filtering for tags: rna+galaxy'')
        (visit anonymous ''10.0.0.1'') (Some [question1, question6])) =
       Render ''post_list.html''
          [(''page'', PostPage \<lparr>object_list = [question1, question6], page_number = 1\<rparr>),
           (''posts'', PostList [question1, question6]),
           (''recent_votes'', VoteList (votes forum)),
           (''html_title'', Str ''Post List'')]"
    by (simp add: post_list_def Let_def biostar_def messages_info_def forum_def)
  have page: "fst (tag_filter biostar forum (visit anonymous ''10.0.0.1'') ''rna+galaxy'') =
       Render ''post_list.html''
          [(''page'', PostPage \<lparr>object_list = [question1, question6], page_number = 1\<rparr>),
           (''posts'', PostList [question1, question6]),
           (''recent_votes'', VoteList (votes forum)),
           (''html_title'', Str ''Post List'')]"
    unfolding run by (rule list)
  have t1: "tag_names question1 = [''rna'']" by (simp add: question1_def)
  have t2: "''galaxy'' \<notin> set (tag_names question1)" by (simp add: question1_def)
  have t3: "''rna'' \<notin> set (tag_names question6)" by (simp add: question6_def)
  show ?thesis by (intro conjI) (rule page t1 t2 t3)+
qed

section \<open>What the handlers write\<close>

lemma try_frame:
  fixes c s ip since pst
  defines "s' \<equiv> snd (update_post_views_try c s ip since pst)"
  defines "pv \<equiv> \<lparr>pv_ip = ip, pv_post_id = post_id pst, pv_date = now c\<rparr>"
  shows "votes s' = votes s \<and> tags s' = tags s \<and> users s' = users s \<and> groups s' = groups s
    \<and> (postviews s' = postviews s \<or> postviews s' = postviews s @ [pv])
    \<and> (posts s' = posts s
        \<or> posts s' = map (\<lambda>p. if post_id p = post_id pst
                               then p\<lparr>view_count := view_count p + 1\<rparr> else p) (posts s))"
  unfolding s'_def pv_def
  by (simp add: update_post_views_try_def Let_def split: option.splits)

lemma upv_frame:
  fixes c s request pst minutes
  defines "s' \<equiv> snd (update_post_views c s request pst minutes)"
  defines "pv \<equiv> \<lparr>pv_ip = remote_ip c request, pv_post_id = post_id pst, pv_date = now c\<rparr>"
  shows "votes s' = votes s \<and> tags s' = tags s \<and> users s' = users s \<and> groups s' = groups s
    \<and> (postviews s' = postviews s \<or> postviews s' = postviews s @ [pv])
    \<and> (posts s' = posts s
        \<or> posts s' = map (\<lambda>p. if post_id p = post_id pst
                               then p\<lparr>view_count := view_count p + 1\<rparr> else p) (posts s))"
proof (cases "fst (update_post_views_try c s (remote_ip c request) (ago c minutes) pst)")
  case None
  with try_frame [of c s "remote_ip c request" "ago c minutes" pst] show ?thesis
    unfolding s'_def pv_def by (simp add: upv_snd)
next
  case (Some exc)
  with try_frame [of c s "remote_ip c request" "ago c minutes" pst] show ?thesis
    unfolding s'_def pv_def by (simp add: upv_snd)
qed

lemma add_test_comment_frame:
  fixes c s ids
  defines "s' \<equiv> snd (add_test_comment c s ids)"
  shows "votes s' = votes s \<and> tags s' = tags s \<and> users s' = users s \<and> groups s' = groups s
    \<and> postviews s' = postviews s
    \<and> (posts s' = posts s
        \<or> (\<exists>u\<in>set (users s). \<exists>parent.
              posts s' = posts s @ [(new_post c)\<lparr>post_type := Post_COMMENT c, parent_id := parent,
                                      content := faker_bs c, author_id := user_id u\<rparr>]))"
proof (cases "users s = []")
  case True
  then show ?thesis unfolding s'_def by (simp add: add_test_comment_def choice_def)
next
  case False
  then have "users s ! (random1 c mod length (users s)) \<in> set (users s)" by simp
  with False show ?thesis
    unfolding s'_def by (auto simp: add_test_comment_def choice_def Let_def)
qed

lemma post_view_thread_state:
  "snd (post_view_thread c s1 pst usr) =
     (if is_authenticated usr
      then snd (add_test_comment c s1 (map post_id (get_thread c s1 pst usr) @ [post_id pst]))
      else s1)"
proof -
  let ?thread = "get_thread c s1 pst usr"
  obtain ups where up: "getitem (vote_store c s1 ?thread usr) (Vote_UP c) = Inr ups"
    using getitem_vote_store [of "Vote_UP c" c s1 ?thread usr] by simp
  obtain bms where bm: "getitem (vote_store c s1 ?thread usr) (Vote_BOOKMARK c) = Inr bms"
    using getitem_vote_store [of "Vote_BOOKMARK c" c s1 ?thread usr] by simp
  obtain thread1 root where dt: "decorate_thread c pst usr ups bms ?thread = (thread1, root)"
    by (cases "decorate_thread c pst usr ups bms ?thread")
  have "map post_id (fst (decorate_thread c pst usr ups bms ?thread)) = map post_id ?thread"
    by (simp add: decorate_thread_def Let_def decorator_fields)
  with dt have ids: "map post_id thread1 = map post_id ?thread" by simp
  have "post_id (snd (decorate_thread c pst usr ups bms ?thread)) = post_id pst"
    by (simp add: decorate_thread_root root_fields decorator_fields)
  with dt have rid: "post_id root = post_id pst" by simp
  obtain e s2 where atc: "add_test_comment c s1 (map post_id ?thread @ [post_id pst]) = (e, s2)"
    by (cases "add_test_comment c s1 (map post_id ?thread @ [post_id pst])")
  show ?thesis
    unfolding post_view_thread_def Let_def
    by (simp only: up bm sum.case dt prod.case ids rid atc snd_conv)
       (simp split: option.splits)
qed

lemma post_view_frame:
  fixes c s request pk pst usr
  defines "s' \<equiv> snd (post_view c s request pk pst usr)"
  defines "pv \<equiv> \<lparr>pv_ip = remote_ip c request, pv_post_id = post_id pst, pv_date = now c\<rparr>"
  shows "votes s' = votes s \<and> tags s' = tags s \<and> users s' = users s \<and> groups s' = groups s
    \<and> (postviews s' = postviews s \<or> postviews s' = postviews s @ [pv])
    \<and> (\<exists>new. (new = [] \<or> (\<exists>u\<in>set (users s). \<exists>parent.
                   new = [(new_post c)\<lparr>post_type := Post_COMMENT c, parent_id := parent,
                                  content := faker_bs c, author_id := user_id u\<rparr>]))
          \<and> (posts s' = posts s @ new
              \<or> posts s' = map (\<lambda>p. if post_id p = post_id pst
                                     then p\<lparr>view_count := view_count p + 1\<rparr> else p) (posts s) @ new))"
proof (cases "is_toplevel pst")
  case False
  then have same: "s' = s" unfolding s'_def by (simp add: post_view_def)
  have "posts s = posts s @ []" by simp
  then show ?thesis unfolding same by blast
next
  case True
  let ?s1 = "snd (update_post_views c s request pst (POST_VIEW_INTERVAL c))"
  let ?bump = "map (\<lambda>p. if post_id p = post_id pst
                         then p\<lparr>view_count := view_count p + 1\<rparr> else p) (posts s)"
  let ?ids = "map post_id (get_thread c ?s1 pst usr) @ [post_id pst]"
  note one = upv_frame [of c s request pst "POST_VIEW_INTERVAL c", folded pv_def]
  have s': "s' = (if is_authenticated usr then snd (add_test_comment c ?s1 ?ids) else ?s1)"
    unfolding s'_def by (simp only: post_view_toplevel [OF True] post_view_thread_state)
  show ?thesis
  proof (cases "is_authenticated usr")
    case False
    with s' have "s' = ?s1" by simp
    with one have "votes s' = votes s \<and> tags s' = tags s \<and> users s' = users s
        \<and> groups s' = groups s
        \<and> (postviews s' = postviews s \<or> postviews s' = postviews s @ [pv])
        \<and> (posts s' = posts s @ [] \<or> posts s' = ?bump @ [])"
      by simp
    then show ?thesis by blast
  next
    case True
    with s' have eq: "s' = snd (add_test_comment c ?s1 ?ids)" by simp
    note two = add_test_comment_frame [of c ?s1 ?ids, folded eq]
    from one two have tables: "votes s' = votes s" "tags s' = tags s" "users s' = users s"
      "groups s' = groups s" "postviews s' = postviews s \<or> postviews s' = postviews s @ [pv]"
      by simp_all
    from two have "posts s' = posts ?s1 @ []
        \<or> (\<exists>u\<in>set (users ?s1). \<exists>parent.
              posts s' = posts ?s1 @ [(new_post c)\<lparr>post_type := Post_COMMENT c, parent_id := parent,
                                      content := faker_bs c, author_id := user_id u\<rparr>])"
      by simp
    then obtain new where new: "new = [] \<or> (\<exists>u\<in>set (users s). \<exists>parent.
                   new = [(new_post c)\<lparr>post_type := Post_COMMENT c, parent_id := parent,
                                  content := faker_bs c, author_id := user_id u\<rparr>])"
      and app: "posts s' = posts ?s1 @ new"
      using one by (metis (no_types, lifting))
    from one have "posts ?s1 = posts s \<or> posts ?s1 = ?bump" by simp
    with app have "posts s' = posts s @ new \<or> posts s' = ?bump @ new" by auto
    with tables new show ?thesis by blast
  qed
qed

text \<open>
  C5. The tables after each handler. The list handlers, the tag list, the group list and
  the search leave every table as it was (four of them queue a message for the next
  page, which is no table). \<^verbatim>\<open>update_post_views\<close> may add one PostView row and add one
  to the view count of the rows of the post; \<^verbatim>\<open>post_view\<close> may do that and add one
  post of type \<^verbatim>\<open>Post.COMMENT\<close> at the end of the posts table. Votes, tags, users and
  groups are never written, and no other column of a post changes.
\<close>

theorem handlers_write_frame:
  "snd (tag_list c s request) = s
   \<and> snd (post_list c s request ps) = s
   \<and> snd (group_list c s request) = s
   \<and> snd (search_results c s request) = s
   \<and> snd (tag_filter c s request name) = s\<lparr>flash := flash s @ [''Filtering for tags: '' @ name]\<rparr>
   \<and> snd (posts_by_user c s request pk usr) = s\<lparr>flash := flash s @ [''Posts by: '' @ user_name usr]\<rparr>
   \<and> snd (upvoted_posts c s request pk usr) =
        s\<lparr>flash := flash s @ [''Upvoted posts by: '' @ user_name usr]\<rparr>
   \<and> snd (my_bookmarks c s request) =
        s\<lparr>flash := flash s @ [''Bookmarks for: '' @ user_name (req_user request)]\<rparr>
   \<and> (let s' = snd (update_post_views c s request pst minutes);
           pv = \<lparr>pv_ip = remote_ip c request, pv_post_id = post_id pst, pv_date = now c\<rparr>
       in votes s' = votes s \<and> tags s' = tags s \<and> users s' = users s \<and> groups s' = groups s
          \<and> (postviews s' = postviews s \<or> postviews s' = postviews s @ [pv])
          \<and> (posts s' = posts s
              \<or> posts s' = map (\<lambda>p. if post_id p = post_id pst
                                     then p\<lparr>view_count := view_count p + 1\<rparr> else p) (posts s)))
   \<and> (let s' = snd (post_view c s request pk pst usr);
           pv = \<lparr>pv_ip = remote_ip c request, pv_post_id = post_id pst, pv_date = now c\<rparr>
       in votes s' = votes s \<and> tags s' = tags s \<and> users s' = users s \<and> groups s' = groups s
          \<and> (postviews s' = postviews s \<or> postviews s' = postviews s @ [pv])
          \<and> (\<exists>new. (new = [] \<or> (\<exists>u\<in>set (users s). \<exists>parent.
                   new = [(new_post c)\<lparr>post_type := Post_COMMENT c, parent_id := parent,
                                  content := faker_bs c, author_id := user_id u\<rparr>]))
                \<and> (posts s' = posts s @ new
                    \<or> posts s' = map (\<lambda>p. if post_id p = post_id pst
                                     then p\<lparr>view_count := view_count p + 1\<rparr> else p) (posts s) @ new)))"
proof (intro conjI)
  show "snd (tag_list c s request) = s" by (simp add: tag_list_def Let_def)
  show pl: "snd (post_list c s1 request ps) = s1" for s1 ps
    by (simp add: post_list_def Let_def)
  show "snd (group_list c s request) = s" by (simp add: group_list_def Let_def)
  show "snd (search_results c s request) = s" by (simp add: search_results_def Let_def)
  show "snd (tag_filter c s request name) = s\<lparr>flash := flash s @ [''Filtering for tags: '' @ name]\<rparr>"
    by (simp add: tag_filter_def Let_def pl messages_info_def)
  show "snd (posts_by_user c s request pk usr) = s\<lparr>flash := flash s @ [''Posts by: '' @ user_name usr]\<rparr>"
    by (simp add: posts_by_user_def Let_def pl messages_info_def)
  show "snd (upvoted_posts c s request pk usr) =
        s\<lparr>flash := flash s @ [''Upvoted posts by: '' @ user_name usr]\<rparr>"
    by (simp add: upvoted_posts_def Let_def pl messages_info_def)
  show "snd (my_bookmarks c s request) =
        s\<lparr>flash := flash s @ [''Bookmarks for: '' @ user_name (req_user request)]\<rparr>"
    by (simp add: my_bookmarks_def Let_def pl messages_info_def)
  show "let s' = snd (update_post_views c s request pst minutes);
           pv = \<lparr>pv_ip = remote_ip c request, pv_post_id = post_id pst, pv_date = now c\<rparr>
       in votes s' = votes s \<and> tags s' = tags s \<and> users s' = users s \<and> groups s' = groups s
          \<and> (postviews s' = postviews s \<or> postviews s' = postviews s @ [pv])
          \<and> (posts s' = posts s
              \<or> posts s' = map (\<lambda>p. if post_id p = post_id pst
                                     then p\<lparr>view_count := view_count p + 1\<rparr> else p) (posts s))"
    unfolding Let_def by (rule upv_frame)
  show "let s' = snd (post_view c s request pk pst usr);
           pv = \<lparr>pv_ip = remote_ip c request, pv_post_id = post_id pst, pv_date = now c\<rparr>
       in votes s' = votes s \<and> tags s' = tags s \<and> users s' = users s \<and> groups s' = groups s
          \<and> (postviews s' = postviews s \<or> postviews s' = postviews s @ [pv])
          \<and> (\<exists>new. (new = [] \<or> (\<exists>u\<in>set (users s). \<exists>parent.
                   new = [(new_post c)\<lparr>post_type := Post_COMMENT c, parent_id := parent,
                                  content := faker_bs c, author_id := user_id u\<rparr>]))
                \<and> (posts s' = posts s @ new
                    \<or> posts s' = map (\<lambda>p. if post_id p = post_id pst
                                     then p\<lparr>view_count := view_count p + 1\<rparr> else p) (posts s) @ new))"
    unfolding Let_def by (rule post_view_frame)
qed

lemma example_comment:
  "snd (post_view biostar forum (visit ada ''10.0.0.1'') 1 question1 ada) =
     forum\<lparr>postviews := [\<lparr>pv_ip = ''10.0.0.9'', pv_post_id = 1, pv_date = 990\<rparr>,
                          \<lparr>pv_ip = ''10.0.0.1'', pv_post_id = 1, pv_date = 1000\<rparr>],
           posts := [question1\<lparr>view_count := 6\<rparr>, answer2, comment3, comment4, comment5,
                     question6,
                     blank_post\<lparr>post_type := 6, parent_id := 5,
                                content := ''synergize scalable paradigms'', author_id := 8\<rparr>]\<rparr>"
proof -
  have top: "is_toplevel question1" by (simp add: question1_def)
  have auth: "is_authenticated ada" by (simp add: ada_def)
  have ids: "map post_id [question1\<lparr>view_count := 6\<rparr>, answer2, comment3, comment4, comment5]
      @ [post_id question1] = [1, 2, 3, 4, 5, 1]"
    by (simp add: example_defs)
  have draw: "choice (random1 biostar) [ada, bob] = Inr bob"
    "choice (random2 biostar) [1, 2, 3, 4, 5, 1 :: int] = Inr 5"
    by (simp_all add: choice_def biostar_def)
  have fields: "new_post biostar = blank_post" "Post_COMMENT biostar = 6"
    "faker_bs biostar = ''synergize scalable paradigms''" "user_id bob = 8"
    by (simp_all add: biostar_def bob_def)
  have one: "snd (post_view biostar forum (visit ada ''10.0.0.1'') 1 question1 ada) =
      snd (add_test_comment biostar
        (snd (update_post_views biostar forum (visit ada ''10.0.0.1'') question1
           (POST_VIEW_INTERVAL biostar)))
        [1, 2, 3, 4, 5, 1])"
    by (simp only: post_view_toplevel [OF top] post_view_thread_state auth if_True
        example_thread ids)
  have two: "snd (add_test_comment biostar
        (forum\<lparr>postviews := [\<lparr>pv_ip = ''10.0.0.9'', pv_post_id = 1, pv_date = 990\<rparr>,
                          \<lparr>pv_ip = ''10.0.0.1'', pv_post_id = 1, pv_date = 1000\<rparr>],
           posts := [question1\<lparr>view_count := 6\<rparr>, answer2, comment3, comment4, comment5,
                     question6]\<rparr>)
        [1, 2, 3, 4, 5, 1])
     = forum\<lparr>postviews := [\<lparr>pv_ip = ''10.0.0.9'', pv_post_id = 1, pv_date = 990\<rparr>,
                          \<lparr>pv_ip = ''10.0.0.1'', pv_post_id = 1, pv_date = 1000\<rparr>],
           posts := [question1\<lparr>view_count := 6\<rparr>, answer2, comment3, comment4, comment5,
                     question6,
                     blank_post\<lparr>post_type := 6, parent_id := 5,
                                content := ''synergize scalable paradigms'', author_id := 8\<rparr>]\<rparr>"
    by (simp add: add_test_comment_def Let_def forum_def draw fields)
  show ?thesis by (simp only: one example_view two)
qed

theorem handlers_write_frame_witness:
  "votes (snd (post_view biostar forum (visit ada ''10.0.0.1'') 1 question1 ada)) = votes forum
   \<and> tags (snd (post_view biostar forum (visit ada ''10.0.0.1'') 1 question1 ada)) = tags forum
   \<and> users (snd (post_view biostar forum (visit ada ''10.0.0.1'') 1 question1 ada)) = users forum
   \<and> groups (snd (post_view biostar forum (visit ada ''10.0.0.1'') 1 question1 ada)) = groups forum
   \<and> postviews (snd (post_view biostar forum (visit ada ''10.0.0.1'') 1 question1 ada)) =
       postviews forum @ [\<lparr>pv_ip = ''10.0.0.1'', pv_post_id = 1, pv_date = 1000\<rparr>]
   \<and> posts (snd (post_view biostar forum (visit ada ''10.0.0.1'') 1 question1 ada)) =
       [question1\<lparr>view_count := 6\<rparr>, answer2, comment3, comment4, comment5, question6,
        blank_post\<lparr>post_type := 6, parent_id := 5,
                   content := ''synergize scalable paradigms'', author_id := 8\<rparr>]
   \<and> snd (tag_filter biostar forum (visit anonymous ''10.0.0.1'') ''rna+galaxy'') =
       forum\<lparr>flash := [''Filtering for tags: rna+galaxy'']\<rparr>
   \<and> snd (search_results biostar forum (search_for ''galaxy'')) = forum"
proof -
  note fact = handlers_write_frame
    [of biostar forum "search_for ''galaxy''" None "''rna+galaxy''" 1 ada question1 5]
  note fact' = handlers_write_frame
    [of biostar forum "visit anonymous ''10.0.0.1''" None "''rna+galaxy''" 1 ada question1 5]
  note fact'' = handlers_write_frame
    [of biostar forum "visit ada ''10.0.0.1''" None "''rna+galaxy''" 1 ada question1 5]
  from fact have sr: "snd (search_results biostar forum (search_for ''galaxy'')) = forum"
    by blast
  from fact' have "snd (tag_filter biostar forum (visit anonymous ''10.0.0.1'') ''rna+galaxy'') =
       forum\<lparr>flash := flash forum @ [''Filtering for tags: '' @ ''rna+galaxy'']\<rparr>"
    by blast
  then have tf: "snd (tag_filter biostar forum (visit anonymous ''10.0.0.1'') ''rna+galaxy'') =
       forum\<lparr>flash := [''Filtering for tags: rna+galaxy'']\<rparr>"
    by (simp add: forum_def)
  from fact'' have tables:
    "votes (snd (post_view biostar forum (visit ada ''10.0.0.1'') 1 question1 ada)) = votes forum"
    "tags (snd (post_view biostar forum (visit ada ''10.0.0.1'') 1 question1 ada)) = tags forum"
    "users (snd (post_view biostar forum (visit ada ''10.0.0.1'') 1 question1 ada)) = users forum"
    "groups (snd (post_view biostar forum (visit ada ''10.0.0.1'') 1 question1 ada)) = groups forum"
    unfolding Let_def by blast+
  have pvs: "postviews (snd (post_view biostar forum (visit ada ''10.0.0.1'') 1 question1 ada)) =
       postviews forum @ [\<lparr>pv_ip = ''10.0.0.1'', pv_post_id = 1, pv_date = 1000\<rparr>]"
    unfolding example_comment by (simp add: forum_def)
  have ps: "posts (snd (post_view biostar forum (visit ada ''10.0.0.1'') 1 question1 ada)) =
       [question1\<lparr>view_count := 6\<rparr>, answer2, comment3, comment4, comment5, question6,
        blank_post\<lparr>post_type := 6, parent_id := 5,
                   content := ''synergize scalable paradigms'', author_id := 8\<rparr>]"
    unfolding example_comment by simp
  show ?thesis by (intro conjI) (rule tables pvs ps tf sr)+
qed

end
